theory Spec2Isabelle
  imports Complex_Main "HOL-Library.Multiset"
begin

section \<open>Scanline polygon fill with an Edge Table and an Active Edge Table\<close>

text \<open>
  A shallow embedding of \<^verbatim>\<open>src/t1CG/core/polygon_fill_algorithm.h\<close>
  (class \<^verbatim>\<open>PolygonFillAlgorithm\<close>).

  Numbers. The C++ \<^verbatim>\<open>int\<close> values (coordinates, rows, \<^verbatim>\<open>maxHeight\<close>,
  \<^verbatim>\<open>maxWidth\<close>) are mathematical integers; the scanline counter, which starts at 0
  and is only incremented, is a natural number. The \<^verbatim>\<open>double\<close> values
  (\<^verbatim>\<open>currentX\<close>, \<^verbatim>\<open>inverseSlope\<close>) are exact real numbers: the conversion of an
  \<^verbatim>\<open>int\<close> to \<^verbatim>\<open>double\<close> is exact, and the rounding of the division and of the
  running sums is not modelled. \<^verbatim>\<open>static_cast<int>\<close> of a \<^verbatim>\<open>double\<close> truncates
  towards zero; a value outside the range of \<^verbatim>\<open>int\<close>, where the C++ conversion is
  undefined, is truncated all the same. Integer overflow is not modelled: the sums the
  code forms (\<^verbatim>\<open>minimumY + 1\<close>, \<^verbatim>\<open>currentScanLine + 1\<close>, \<^verbatim>\<open>x2 + 1\<close>) stay within
  one of a row, a \<^verbatim>\<open>maximumY\<close> or a width the caller passed.
\<close>

type_synonym double = real

subsection \<open>Data model\<close>

text \<open>
  \<^verbatim>\<open>data_structures.h\<close> is not among the sources. The types below are taken from the
  way \<^verbatim>\<open>polygon_fill_algorithm.h\<close> uses them: \<^verbatim>\<open>Point2D(x, y)\<close> with the members
  \<^verbatim>\<open>coordinateX\<close>, \<^verbatim>\<open>coordinateY\<close>; \<^verbatim>\<open>EdgeData(maxY, x, inverseSlope, minY)\<close>
  with the members \<^verbatim>\<open>maximumY\<close>, \<^verbatim>\<open>currentX\<close>, \<^verbatim>\<open>inverseSlope\<close>.
\<close>

record Point2D =
  coordinateX :: int
  coordinateY :: int

text \<open>
  Modelled from the spec: the name of the fourth member of \<^verbatim>\<open>EdgeData\<close> (the spec's
  \<^verbatim>\<open>yMin\<close>, "the row at which the edge becomes active"), which the algorithm stores
  through the constructor and never reads.
\<close>

record EdgeData =
  maximumY :: int
  currentX :: double
  inverseSlope :: double
  minimumY :: int

text \<open>
  Modelled from the spec: \<^verbatim>\<open>EdgeTable\<close> is "an array indexed by scanline row
  (0..maxHeight-1); each slot holds the (possibly empty) set of Edge instances", built by
  \<^verbatim>\<open>EdgeTable edgeTable(maxHeight)\<close> and filled with \<^verbatim>\<open>push_back\<close>: a list of
  buckets, each a list of edges in insertion order. For \<^verbatim>\<open>maxHeight <= 0\<close> the range of
  rows is empty and so is the table; what the constructor of the absent type does with a
  negative size is not modelled.
\<close>

type_synonym EdgeTable = "EdgeData list list"

definition new_EdgeTable :: "int \<Rightarrow> EdgeTable" where
  "new_EdgeTable maxHeight = replicate (nat maxHeight) []"

text \<open>
  What \<^verbatim>\<open>fillPolygon\<close> draws. \<^verbatim>\<open>GlLine x1 y1 x2 y2\<close> is the pair of calls
  \<^verbatim>\<open>glVertex2i(x1, y1); glVertex2i(x2, y2)\<close> between \<^verbatim>\<open>glBegin(GL_LINES)\<close> and
  \<^verbatim>\<open>glEnd()\<close>; \<^verbatim>\<open>GlPoint x y\<close> is \<^verbatim>\<open>glVertex2i(x, y)\<close> between
  \<^verbatim>\<open>glBegin(GL_POINTS)\<close> and \<^verbatim>\<open>glEnd()\<close>. The colour set by \<^verbatim>\<open>glColor3f\<close>
  is left out.
\<close>

datatype gl_primitive = GlLine int int int int | GlPoint int int

text \<open>
  The span \<^verbatim>\<open>{row, xStart, xEnd}\<close> of the spec's interface, inclusive on both ends, is
  the line the code draws from \<^verbatim>\<open>(xStart, row)\<close> to \<^verbatim>\<open>(xEnd + 1, row)\<close>.
\<close>

definition Span :: "int \<Rightarrow> int \<Rightarrow> int \<Rightarrow> gl_primitive" where
  "Span row xStart xEnd = GlLine xStart row (xEnd + 1) row"

subsection \<open>Numeric conversions\<close>

definition double_to_int :: "double \<Rightarrow> int" where
  "double_to_int d = (if 0 \<le> d then \<lfloor>d\<rfloor> else \<lceil>d\<rceil>)"

text \<open>\<^verbatim>\<open>static_cast<int>(x + 0.5)\<close>, the rounding of \<^verbatim>\<open>fillPolygon\<close>.\<close>

definition round_x :: "double \<Rightarrow> int" where
  "round_x x = double_to_int (x + 1 / 2)"

subsection \<open>calculateInverseSlope\<close>

definition calculateInverseSlope :: "Point2D \<Rightarrow> Point2D \<Rightarrow> double" where
  "calculateInverseSlope point1 point2 =
     (let deltaX = (of_int (coordinateX point2 - coordinateX point1) :: double);
          deltaY = (of_int (coordinateY point2 - coordinateY point1) :: double)
      in if deltaY = 0 then 0 else deltaX / deltaY)"

subsection \<open>buildEdgeTable\<close>

text \<open>
  One iteration of the \<^verbatim>\<open>for\<close> loop of \<^verbatim>\<open>buildEdgeTable\<close> pushes at most one edge
  into one bucket. \<open>edge_entry\<close> computes the bucket row and the edge, \<open>None\<close> when
  the iteration pushes nothing. The index \<^verbatim>\<open>(vertexIndex - 1 + size) % size\<close> is
  computed in \<^verbatim>\<open>size_t\<close>, where it equals \<open>(vertexIndex + size - 1) mod size\<close>.
  The locals \<^verbatim>\<open>inverseSlope\<close>, \<^verbatim>\<open>initialX\<close>, \<^verbatim>\<open>maximumY\<close>, \<^verbatim>\<open>minimumY\<close> are
  \<open>slope\<close>, \<open>initX\<close>, \<open>maxY\<close>, \<open>minY\<close> here (\<open>minY'\<close>, \<open>initX'\<close> after the
  adjustment).
\<close>

definition edge_entry :: "Point2D list \<Rightarrow> int \<Rightarrow> nat \<Rightarrow> (nat \<times> EdgeData) option" where
  "edge_entry polygonVertices maxHeight vertexIndex =
     (let n = length polygonVertices;
          currentVertex = polygonVertices ! vertexIndex;
          nextVertex = polygonVertices ! ((vertexIndex + 1) mod n)
      in if coordinateY currentVertex = coordinateY nextVertex then
           (let minY = coordinateY currentVertex;
                maxY = coordinateY nextVertex;
                initX = (of_int (coordinateX currentVertex) :: double)
            in if 0 \<le> minY \<and> minY < maxHeight
               then Some (nat minY,
                 \<lparr>maximumY = maxY, currentX = initX, inverseSlope = 0, minimumY = minY\<rparr>)
               else None)
         else
           (let (minYPoint, maxYPoint) =
                  (if coordinateY currentVertex > coordinateY nextVertex
                   then (nextVertex, currentVertex) else (currentVertex, nextVertex));
                slope = calculateInverseSlope minYPoint maxYPoint;
                initX = (of_int (coordinateX minYPoint) :: double);
                maxY = coordinateY maxYPoint;
                minY = coordinateY minYPoint;
                (minY', initX') =
                  (if 0 \<le> minY \<and> minY < maxHeight then
                     (let (prevVertex, nextAdjacentVertex) =
                            (if coordinateX minYPoint = coordinateX currentVertex \<and>
                                coordinateY minYPoint = coordinateY currentVertex
                             then (polygonVertices ! ((vertexIndex + n - 1) mod n), nextVertex)
                             else (currentVertex, polygonVertices ! ((vertexIndex + 2) mod n)));
                          prevAbove = (coordinateY prevVertex < minY);
                          nextAbove = (coordinateY nextAdjacentVertex < minY)
                      in if prevAbove = nextAbove
                         then (if prevAbove then (minY, initX) else (minY + 1, initX + slope))
                         else (minY, initX))
                   else (minY, initX))
            in if 0 \<le> minY' \<and> minY' < maxHeight
               then Some (nat minY',
                 \<lparr>maximumY = maxY, currentX = initX', inverseSlope = slope, minimumY = minY'\<rparr>)
               else None))"

definition push_entry :: "(nat \<times> EdgeData) option \<Rightarrow> EdgeTable \<Rightarrow> EdgeTable" where
  "push_entry entry edgeTable =
     (case entry of
        None \<Rightarrow> edgeTable
      | Some (row, edge) \<Rightarrow> edgeTable[row := edgeTable ! row @ [edge]])"

definition buildEdgeTable :: "Point2D list \<Rightarrow> int \<Rightarrow> EdgeTable" where
  "buildEdgeTable polygonVertices maxHeight =
     (if length polygonVertices < 2 then new_EdgeTable maxHeight
      else fold (\<lambda>vertexIndex. push_entry (edge_entry polygonVertices maxHeight vertexIndex))
             [0 ..< length polygonVertices] (new_EdgeTable maxHeight))"

subsection \<open>The scanline loop\<close>

text \<open>
  \<^verbatim>\<open>while (currentScanLine < edgeTable.size() && edgeTable[currentScanLine].empty())
  currentScanLine++;\<close>
\<close>

function skip_empty :: "EdgeTable \<Rightarrow> nat \<Rightarrow> nat" where
  "skip_empty edgeTable currentScanLine =
     (if currentScanLine < length edgeTable \<and> edgeTable ! currentScanLine = []
      then skip_empty edgeTable (currentScanLine + 1) else currentScanLine)"
  by pat_completeness auto
termination
  by (relation "measure (\<lambda>(edgeTable, currentScanLine). length edgeTable - currentScanLine)") auto

declare skip_empty.simps [simp del]

text \<open>
  The \<^verbatim>\<open>while\<close> loops of \<^verbatim>\<open>fillPolygon\<close> (lines 147 to 208) and of
  \<^verbatim>\<open>generateTriangulation\<close> (lines 236 to 302) are the same text but for the emission
  block in the middle, so the model has one loop with the emission as a parameter.
  \<open>load_sorted\<close> is the start of the body (the edges of the bucket are appended to the
  Active Edge Table, which is then sorted by \<^verbatim>\<open>currentX\<close>); \<open>advance_prune\<close> is its
  end (\<^verbatim>\<open>currentX += inverseSlope\<close> for every edge, then \<^verbatim>\<open>remove_if\<close> of the edges
  with \<^verbatim>\<open>maximumY <= currentScanLine\<close>, the counter already incremented).
  \<^verbatim>\<open>std::sort\<close> leaves the order of edges with equal \<^verbatim>\<open>currentX\<close> open; the model
  keeps their order (a stable sort), as the spec asks of an implementation. The loop is a
  partial function: its value is \<open>None\<close> where the C++ loop would not return.
\<close>

definition load_sorted :: "EdgeTable \<Rightarrow> nat \<Rightarrow> EdgeData list \<Rightarrow> EdgeData list" where
  "load_sorted edgeTable currentScanLine activeEdgeTable =
     sort_key currentX
       (if currentScanLine < length edgeTable \<and> edgeTable ! currentScanLine \<noteq> []
        then activeEdgeTable @ edgeTable ! currentScanLine else activeEdgeTable)"

definition advance_prune :: "nat \<Rightarrow> EdgeData list \<Rightarrow> EdgeData list" where
  "advance_prune currentScanLine activeEdgeTable =
     filter (\<lambda>edge. \<not> maximumY edge \<le> int currentScanLine)
       (map (\<lambda>edge. edge\<lparr>currentX := currentX edge + inverseSlope edge\<rparr>) activeEdgeTable)"

partial_function (option) scanline_loop ::
  "(nat \<Rightarrow> EdgeData list \<Rightarrow> 'o list) \<Rightarrow> EdgeTable \<Rightarrow> nat \<Rightarrow> EdgeData list \<Rightarrow> 'o list
     \<Rightarrow> 'o list option" where
  "scanline_loop emit edgeTable currentScanLine activeEdgeTable emitted =
     (if currentScanLine < length edgeTable \<or> activeEdgeTable \<noteq> [] then
        (let sortedAET = load_sorted edgeTable currentScanLine activeEdgeTable;
             emitted' = emitted @ emit currentScanLine sortedAET;
             nextScanLine = currentScanLine + 1;
             nextAET = advance_prune nextScanLine sortedAET
         in if nextAET = [] \<and> nextScanLine \<ge> length edgeTable then Some emitted'
            else scanline_loop emit edgeTable nextScanLine nextAET emitted')
      else Some emitted)"

declare scanline_loop.simps [code]

text \<open>
  The two callers share their prologue: nothing for fewer than three vertices, the table,
  the skip to the first non-empty bucket, nothing when there is none.
\<close>

definition scanline_run ::
  "(nat \<Rightarrow> EdgeData list \<Rightarrow> 'o list) \<Rightarrow> Point2D list \<Rightarrow> int \<Rightarrow> 'o list option" where
  "scanline_run emit polygonVertices maxHeight =
     (if length polygonVertices < 3 then Some []
      else
        (let edgeTable = buildEdgeTable polygonVertices maxHeight;
             currentScanLine = skip_empty edgeTable 0
         in if currentScanLine \<ge> length edgeTable then Some []
            else scanline_loop emit edgeTable currentScanLine [] []))"

subsection \<open>fillPolygon\<close>

text \<open>The \<^verbatim>\<open>for\<close> loop over the pairs \<^verbatim>\<open>(0,1), (2,3), ...\<close> of the sorted table.\<close>

fun span_pairs :: "int \<Rightarrow> int \<Rightarrow> nat \<Rightarrow> EdgeData list \<Rightarrow> gl_primitive list" where
  "span_pairs maxHeight maxWidth currentScanLine (edgeA # edgeB # rest) =
     (let x1 = round_x (currentX edgeA);
          x2 = round_x (currentX edgeB);
          (x1, x2) = (if x1 > x2 then (x2, x1) else (x1, x2));
          x1 = (if x1 < 0 then 0 else x1);
          x2 = (if x2 \<ge> maxWidth then maxWidth - 1 else x2)
      in (if x1 \<le> x2 \<and> 0 \<le> int currentScanLine \<and> int currentScanLine < maxHeight
          then [GlLine x1 (int currentScanLine) (x2 + 1) (int currentScanLine)] else [])
         @ span_pairs maxHeight maxWidth currentScanLine rest)"
| "span_pairs maxHeight maxWidth currentScanLine rest = []"

definition emit_spans :: "int \<Rightarrow> int \<Rightarrow> nat \<Rightarrow> EdgeData list \<Rightarrow> gl_primitive list" where
  "emit_spans maxHeight maxWidth currentScanLine activeEdgeTable =
     (if length activeEdgeTable \<ge> 2 then
        span_pairs maxHeight maxWidth currentScanLine activeEdgeTable
        @ (if length activeEdgeTable mod 2 = 1 then
             (let x = round_x (currentX (activeEdgeTable ! (length activeEdgeTable - 1)))
              in if 0 \<le> x \<and> x < maxWidth \<and> 0 \<le> int currentScanLine
                    \<and> int currentScanLine < maxHeight
                 then [GlPoint x (int currentScanLine)] else [])
           else [])
      else [])"

definition fillPolygon :: "Point2D list \<Rightarrow> int \<Rightarrow> int \<Rightarrow> gl_primitive list option" where
  "fillPolygon polygonVertices maxHeight maxWidth =
     scanline_run (emit_spans maxHeight maxWidth) polygonVertices maxHeight"

subsection \<open>generateTriangulation\<close>

fun triangle_pairs :: "nat \<Rightarrow> EdgeData list \<Rightarrow> Point2D list list" where
  "triangle_pairs currentScanLine (edgeA # edgeB # rest) =
     (let x1_start = currentX edgeA;
          x2_start = currentX edgeB;
          x1_end = x1_start + inverseSlope edgeA;
          x2_end = x2_start + inverseSlope edgeB;
          p1 = \<lparr>coordinateX = double_to_int x1_start, coordinateY = int currentScanLine\<rparr>;
          p2 = \<lparr>coordinateX = double_to_int x2_start, coordinateY = int currentScanLine\<rparr>;
          p3 = \<lparr>coordinateX = double_to_int x1_end, coordinateY = int currentScanLine + 1\<rparr>;
          p4 = \<lparr>coordinateX = double_to_int x2_end, coordinateY = int currentScanLine + 1\<rparr>
      in [[p1, p2, p3], [p2, p4, p3]] @ triangle_pairs currentScanLine rest)"
| "triangle_pairs currentScanLine rest = []"

definition emit_triangles :: "nat \<Rightarrow> EdgeData list \<Rightarrow> Point2D list list" where
  "emit_triangles currentScanLine activeEdgeTable =
     (if length activeEdgeTable \<ge> 2 then triangle_pairs currentScanLine activeEdgeTable else [])"

definition generateTriangulation :: "Point2D list \<Rightarrow> int \<Rightarrow> Point2D list list option" where
  "generateTriangulation polygonVertices maxHeight =
     scanline_run emit_triangles polygonVertices maxHeight"

subsection \<open>The rows the loop visits\<close>

text \<open>
  The loop run with an emission that records the row and the sorted Active Edge Table:
  the list of the rows at which the emission step is performed, each with the table it
  is performed on.
\<close>

definition record_row :: "nat \<Rightarrow> EdgeData list \<Rightarrow> (nat \<times> EdgeData list) list" where
  "record_row currentScanLine sortedAET = [(currentScanLine, sortedAET)]"

definition scanline_rows :: "Point2D list \<Rightarrow> int \<Rightarrow> (nat \<times> EdgeData list) list option" where
  "scanline_rows polygonVertices maxHeight = scanline_run record_row polygonVertices maxHeight"

text \<open>The bucket of a row, empty beyond the table.\<close>

definition et_row :: "EdgeTable \<Rightarrow> nat \<Rightarrow> EdgeData list" where
  "et_row edgeTable y = (if y < length edgeTable then edgeTable ! y else [])"

text \<open>
  The sorted Active Edge Table \<open>j\<close> rows after the loop was entered at row \<open>y\<close> with
  the table \<open>aet\<close>, were the loop to run that far.
\<close>

primrec aet_at :: "EdgeTable \<Rightarrow> nat \<Rightarrow> EdgeData list \<Rightarrow> nat \<Rightarrow> EdgeData list" where
  "aet_at edgeTable y aet 0 = load_sorted edgeTable y aet"
| "aet_at edgeTable y aet (Suc j) =
     load_sorted edgeTable (y + Suc j) (advance_prune (y + Suc j) (aet_at edgeTable y aet j))"

text \<open>The pushes of \<^verbatim>\<open>buildEdgeTable\<close>, in the order of the vertices.\<close>

definition edge_entries :: "Point2D list \<Rightarrow> int \<Rightarrow> (nat \<times> EdgeData) list" where
  "edge_entries polygonVertices maxHeight =
     (if length polygonVertices < 2 then []
      else List.map_filter (edge_entry polygonVertices maxHeight) [0 ..< length polygonVertices])"

subsection \<open>The polygon around an edge\<close>

text \<open>
  The polygon is closed: the vertex after the last is the first. For the edge from vertex
  \<open>i\<close> to the next one, \<open>lower_index\<close> is the endpoint of smaller row (the spec's
  lower endpoint, \<^verbatim>\<open>minYPoint\<close>) and \<open>upper_index\<close> the other one. A vertex lies above
  another, in the spec's words, when its row is larger.
\<close>

definition next_index :: "Point2D list \<Rightarrow> nat \<Rightarrow> nat" where
  "next_index vs j = (j + 1) mod length vs"

definition prev_index :: "Point2D list \<Rightarrow> nat \<Rightarrow> nat" where
  "prev_index vs j = (j + length vs - 1) mod length vs"

definition lower_index :: "Point2D list \<Rightarrow> nat \<Rightarrow> nat" where
  "lower_index vs i =
     (if coordinateY (vs ! next_index vs i) < coordinateY (vs ! i) then next_index vs i else i)"

definition upper_index :: "Point2D list \<Rightarrow> nat \<Rightarrow> nat" where
  "upper_index vs i =
     (if coordinateY (vs ! next_index vs i) < coordinateY (vs ! i) then i else next_index vs i)"

definition neighbours_strictly_above :: "Point2D list \<Rightarrow> nat \<Rightarrow> bool" where
  "neighbours_strictly_above vs j \<longleftrightarrow>
     coordinateY (vs ! j) < coordinateY (vs ! prev_index vs j) \<and>
     coordinateY (vs ! j) < coordinateY (vs ! next_index vs j)"

definition neighbours_not_below :: "Point2D list \<Rightarrow> nat \<Rightarrow> bool" where
  "neighbours_not_below vs j \<longleftrightarrow>
     coordinateY (vs ! j) \<le> coordinateY (vs ! prev_index vs j) \<and>
     coordinateY (vs ! j) \<le> coordinateY (vs ! next_index vs j)"

subsection \<open>Reading the output\<close>

text \<open>The row a primitive is drawn on.\<close>

fun primitive_row :: "gl_primitive \<Rightarrow> int" where
  "primitive_row (GlLine x1 y1 x2 y2) = y1"
| "primitive_row (GlPoint x y) = y"

text \<open>
  A primitive inside the raster of \<open>maxHeight\<close> rows and \<open>maxWidth\<close> columns: a span
  \<open>x1 .. x2\<close> (drawn as the line to \<open>x2 + 1\<close>) on one row, or a point.
\<close>

fun in_raster :: "int \<Rightarrow> int \<Rightarrow> gl_primitive \<Rightarrow> bool" where
  "in_raster maxHeight maxWidth (GlLine x1 y1 x2' y2) =
     (y1 = y2 \<and> 0 \<le> y1 \<and> y1 < maxHeight \<and> 0 \<le> x1 \<and> x1 \<le> x2' - 1 \<and> x2' - 1 \<le> maxWidth - 1)"
| "in_raster maxHeight maxWidth (GlPoint x y) =
     (0 \<le> x \<and> x < maxWidth \<and> 0 \<le> y \<and> y < maxHeight)"

text \<open>
  The two ends of the span of a pair of edges, rounded, ordered and clamped to
  \<open>[0, maxWidth)\<close>.
\<close>

definition clamped_start :: "EdgeData \<Rightarrow> EdgeData \<Rightarrow> int" where
  "clamped_start edgeA edgeB = max 0 (min (round_x (currentX edgeA)) (round_x (currentX edgeB)))"

definition clamped_end :: "int \<Rightarrow> EdgeData \<Rightarrow> EdgeData \<Rightarrow> int" where
  "clamped_end maxWidth edgeA edgeB =
     min (maxWidth - 1) (max (round_x (currentX edgeA)) (round_x (currentX edgeB)))"

text \<open>
  The two triangles of the trapezoid of height 1 between a pair of edges at row \<open>y\<close>
  and their predicted positions at row \<open>y + 1\<close>, as the spec words them.
\<close>

definition trapezoid :: "nat \<Rightarrow> EdgeData \<Rightarrow> EdgeData \<Rightarrow> Point2D list list" where
  "trapezoid y edgeA edgeB =
     (let xA = currentX edgeA; xB = currentX edgeB;
          xA' = xA + inverseSlope edgeA; xB' = xB + inverseSlope edgeB
      in [[\<lparr>coordinateX = double_to_int xA, coordinateY = int y\<rparr>,
           \<lparr>coordinateX = double_to_int xB, coordinateY = int y\<rparr>,
           \<lparr>coordinateX = double_to_int xA', coordinateY = int y + 1\<rparr>],
          [\<lparr>coordinateX = double_to_int xB, coordinateY = int y\<rparr>,
           \<lparr>coordinateX = double_to_int xB', coordinateY = int y + 1\<rparr>,
           \<lparr>coordinateX = double_to_int xA', coordinateY = int y + 1\<rparr>]])"

text \<open>Vertical translation by \<open>k\<close> rows: of a polygon, of what is drawn, of an edge.\<close>

definition translate_polygon :: "int \<Rightarrow> Point2D list \<Rightarrow> Point2D list" where
  "translate_polygon k vs = map (\<lambda>p. p\<lparr>coordinateY := coordinateY p + k\<rparr>) vs"

fun translate_primitive :: "int \<Rightarrow> gl_primitive \<Rightarrow> gl_primitive" where
  "translate_primitive k (GlLine x1 y1 x2 y2) = GlLine x1 (y1 + k) x2 (y2 + k)"
| "translate_primitive k (GlPoint x y) = GlPoint x (y + k)"

definition translate_edge :: "int \<Rightarrow> EdgeData \<Rightarrow> EdgeData" where
  "translate_edge k e = e\<lparr>maximumY := maximumY e + k, minimumY := minimumY e + k\<rparr>"

definition translate_entry :: "int \<Rightarrow> nat \<times> EdgeData \<Rightarrow> nat \<times> EdgeData" where
  "translate_entry k en = (nat (int (fst en) + k), translate_edge k (snd en))"

text \<open>An edge after \<open>d\<close> rows in the Active Edge Table.\<close>

definition advanced :: "nat \<Rightarrow> EdgeData \<Rightarrow> EdgeData" where
  "advanced d e = e\<lparr>currentX := currentX e + of_nat d * inverseSlope e\<rparr>"

subsection \<open>Example polygons\<close>

text \<open>Scenario A of the spec: the square with corners (10,10), (50,10), (50,50), (10,50).\<close>

definition scenario_A :: "Point2D list" where
  "scenario_A =
     [\<lparr>coordinateX = 10, coordinateY = 10\<rparr>, \<lparr>coordinateX = 50, coordinateY = 10\<rparr>,
      \<lparr>coordinateX = 50, coordinateY = 50\<rparr>, \<lparr>coordinateX = 10, coordinateY = 50\<rparr>]"

text \<open>A triangle with a horizontal edge on row 0 and its apex on row 2.\<close>

definition small_triangle :: "Point2D list" where
  "small_triangle =
     [\<lparr>coordinateX = 0, coordinateY = 0\<rparr>, \<lparr>coordinateX = 2, coordinateY = 0\<rparr>,
      \<lparr>coordinateX = 1, coordinateY = 2\<rparr>]"

text \<open>
  The rectangle from (0,0) to (8,4) with a notch between columns 4 and 6 cut from row 4
  down to row 2: the horizontal edge of the notch lies on row 2, between the two sides.
\<close>

definition notched_rectangle :: "Point2D list" where
  "notched_rectangle =
     [\<lparr>coordinateX = 0, coordinateY = 0\<rparr>, \<lparr>coordinateX = 8, coordinateY = 0\<rparr>,
      \<lparr>coordinateX = 8, coordinateY = 4\<rparr>, \<lparr>coordinateX = 6, coordinateY = 4\<rparr>,
      \<lparr>coordinateX = 6, coordinateY = 2\<rparr>, \<lparr>coordinateX = 4, coordinateY = 2\<rparr>,
      \<lparr>coordinateX = 4, coordinateY = 4\<rparr>, \<lparr>coordinateX = 0, coordinateY = 4\<rparr>]"

text \<open>A triangle whose lowest vertex, on row 4, has both neighbours on row 10.\<close>

definition valley_triangle :: "Point2D list" where
  "valley_triangle =
     [\<lparr>coordinateX = 5, coordinateY = 4\<rparr>, \<lparr>coordinateX = 10, coordinateY = 10\<rparr>,
      \<lparr>coordinateX = 0, coordinateY = 10\<rparr>]"

text \<open>A triangle whose vertex (4,2) has one neighbour below it and one above.\<close>

definition slanted_triangle :: "Point2D list" where
  "slanted_triangle =
     [\<lparr>coordinateX = 0, coordinateY = 0\<rparr>, \<lparr>coordinateX = 4, coordinateY = 2\<rparr>,
      \<lparr>coordinateX = 0, coordinateY = 4\<rparr>]"

section \<open>The Edge Table\<close>

lemma length_new_EdgeTable: "length (new_EdgeTable maxHeight) = nat maxHeight"
  by (simp add: new_EdgeTable_def)

lemma edge_entry_row_less:
  "edge_entry vs mh i = Some (r, e) \<Longrightarrow> r < nat mh"
  by (auto simp: edge_entry_def Let_def split: if_splits prod.splits)

lemma fold_push_entry:
  assumes "\<forall>i \<in> set is. \<forall>r e. f i = Some (r, e) \<longrightarrow> r < length et"
  shows "length (fold (\<lambda>i. push_entry (f i)) is et) = length et \<and>
         (\<forall>r < length et. fold (\<lambda>i. push_entry (f i)) is et ! r
             = et ! r @ map snd (filter (\<lambda>en. fst en = r) (List.map_filter f is)))"
  using assms
proof (induction "is" arbitrary: et)
  case Nil
  then show ?case by (simp add: List.map_filter_simps)
next
  case (Cons i "is")
  show ?case
  proof (cases "f i")
    case None
    with Cons.IH[of et] Cons.prems show ?thesis
      by (simp add: push_entry_def List.map_filter_simps)
  next
    case (Some en)
    obtain r0 e0 where en: "en = (r0, e0)" by (cases en)
    let ?et = "et[r0 := et ! r0 @ [e0]]"
    have r0: "r0 < length et" using Cons.prems Some en by simp
    have "\<forall>i \<in> set is. \<forall>r e. f i = Some (r, e) \<longrightarrow> r < length ?et"
      using Cons.prems by simp
    from Cons.IH[OF this] Some en r0 show ?thesis
      by (auto simp: push_entry_def List.map_filter_simps nth_list_update)
  qed
qed

lemma length_buildEdgeTable: "length (buildEdgeTable vs mh) = nat mh"
proof -
  have "\<forall>i \<in> set [0..<length vs]. \<forall>r e. edge_entry vs mh i = Some (r, e)
          \<longrightarrow> r < length (new_EdgeTable mh)"
    by (auto simp: length_new_EdgeTable dest: edge_entry_row_less)
  from fold_push_entry[OF this] show ?thesis
    by (simp add: buildEdgeTable_def length_new_EdgeTable)
qed

lemma edge_entries_row_less: "(r, e) \<in> set (edge_entries vs mh) \<Longrightarrow> r < nat mh"
  by (auto simp: edge_entries_def List.map_filter_def dest: edge_entry_row_less
      split: if_splits)

lemma et_row_buildEdgeTable:
  "et_row (buildEdgeTable vs mh) r = map snd (filter (\<lambda>en. fst en = r) (edge_entries vs mh))"
proof (cases "r < nat mh")
  case False
  then have "filter (\<lambda>en. fst en = r) (edge_entries vs mh) = []"
    by (auto simp: filter_empty_conv dest: edge_entries_row_less)
  with False show ?thesis
    by (simp add: et_row_def length_buildEdgeTable)
next
  case True
  have "\<forall>i \<in> set [0..<length vs]. \<forall>r e. edge_entry vs mh i = Some (r, e)
          \<longrightarrow> r < length (new_EdgeTable mh)"
    by (auto simp: length_new_EdgeTable dest: edge_entry_row_less)
  from fold_push_entry[OF this] True show ?thesis
    by (simp add: et_row_def length_buildEdgeTable buildEdgeTable_def edge_entries_def
        length_new_EdgeTable new_EdgeTable_def)
qed

section \<open>The scanline loop in closed form\<close>

lemma load_sorted_eq: "load_sorted et y aet = sort_key currentX (aet @ et_row et y)"
  by (simp add: load_sorted_def et_row_def)

lemma sort_key_eq_Nil: "sort_key f xs = [] \<longleftrightarrow> xs = []"
  by (metis length_0_conv length_sort)

lemma load_sorted_Nil_iff: "load_sorted et y aet = [] \<longleftrightarrow> aet = [] \<and> et_row et y = []"
  by (simp add: load_sorted_eq sort_key_eq_Nil)

lemma set_load_sorted: "set (load_sorted et y aet) = set aet \<union> set (et_row et y)"
  by (simp add: load_sorted_eq)

lemma advance_prune_Nil [simp]: "advance_prune y [] = []"
  by (simp add: advance_prune_def)

lemma aet_at_shift:
  "aet_at et y aet (Suc j) = aet_at et (Suc y) (advance_prune (Suc y) (load_sorted et y aet)) j"
  by (induction j) simp_all

lemma aet_at_Nil_beyond: "length et \<le> y \<Longrightarrow> aet_at et y [] j = []"
  by (induction j) (simp_all add: load_sorted_eq et_row_def)

declare aet_at.simps(2) [simp del]

lemma scanline_loop_unfold:
  "scanline_loop emit et y aet out =
     (if y < length et \<or> aet \<noteq> [] then
        (if advance_prune (Suc y) (load_sorted et y aet) = [] \<and> length et \<le> Suc y
         then Some (out @ emit y (load_sorted et y aet))
         else scanline_loop emit et (Suc y) (advance_prune (Suc y) (load_sorted et y aet))
                (out @ emit y (load_sorted et y aet)))
      else Some out)"
  by (subst scanline_loop.simps) (simp add: Let_def)

lemma upt_shift_map: "map f [0..<Suc n] = f 0 # map (\<lambda>j. f (Suc j)) [0..<n]"
  by (simp add: upt_conv_Cons map_Suc_upt[symmetric] del: upt_Suc)

lemma scanline_loop_closed:
  assumes "\<forall>j\<ge>N. aet_at et y aet j = []" and "length et \<le> y + N"
  shows "\<exists>n\<le>N. (\<forall>j\<ge>n. aet_at et y aet j = []) \<and>
           scanline_loop record_row et y aet acc
             = Some (acc @ map (\<lambda>j. (y + j, aet_at et y aet j)) [0..<n]) \<and>
           scanline_loop emit et y aet out
             = Some (out @ concat (map (\<lambda>j. emit (y + j) (aet_at et y aet j)) [0..<n]))"
  using assms
proof (induction N arbitrary: y aet acc out)
  case 0
  have "load_sorted et y aet = []" using 0(1)[rule_format, of 0] by simp
  moreover have "length et \<le> y" using 0(2) by simp
  ultimately have "aet = []" by (simp add: load_sorted_Nil_iff)
  have "aet_at et y aet j = []" for j using 0 by simp
  with \<open>length et \<le> y\<close> \<open>aet = []\<close> show ?case
    by (intro exI[of _ 0]) (simp add: scanline_loop_unfold[of _ et y])
next
  case (Suc N)
  let ?s = "load_sorted et y aet"
  let ?nxt = "advance_prune (Suc y) ?s"
  show ?case
  proof (cases "y < length et \<or> aet \<noteq> []")
    case False
    then have "aet_at et y aet j = []" for j
      using aet_at_Nil_beyond[of et y j] by simp
    with False show ?thesis
      by (intro exI[of _ 0]) (simp add: scanline_loop_unfold[of _ et y])
  next
    case True
    have q: "\<forall>j\<ge>N. aet_at et (Suc y) ?nxt j = []"
      using Suc.prems(1) by (simp add: aet_at_shift[symmetric])
    have l: "length et \<le> Suc y + N" using Suc.prems(2) by simp
    show ?thesis
    proof (cases "?nxt = [] \<and> length et \<le> Suc y")
      case exit: True
      then have "aet_at et (Suc y) ?nxt j = []" for j
        using aet_at_Nil_beyond[of et "Suc y" j] by simp
      then have "\<forall>j\<ge>1. aet_at et y aet j = []"
        by (metis aet_at_shift Suc_le_D One_nat_def)
      with True exit show ?thesis
        by (intro exI[of _ 1]) (simp add: scanline_loop_unfold[of _ et y] record_row_def)
    next
      case False
      from Suc.IH[OF q l, of "acc @ record_row y ?s" "out @ emit y ?s"]
      obtain n where n: "n \<le> N" "\<forall>j\<ge>n. aet_at et (Suc y) ?nxt j = []"
        "scanline_loop record_row et (Suc y) ?nxt (acc @ record_row y ?s)
          = Some ((acc @ record_row y ?s) @ map (\<lambda>j. (Suc y + j, aet_at et (Suc y) ?nxt j)) [0..<n])"
        "scanline_loop emit et (Suc y) ?nxt (out @ emit y ?s)
          = Some ((out @ emit y ?s) @ concat (map (\<lambda>j. emit (Suc y + j) (aet_at et (Suc y) ?nxt j)) [0..<n]))"
        by blast
      have a: "\<forall>j\<ge>Suc n. aet_at et y aet j = []"
        using n(2) by (metis aet_at_shift Suc_le_D Suc_le_mono)
      have b: "scanline_loop record_row et y aet acc
             = Some (acc @ map (\<lambda>j. (y + j, aet_at et y aet j)) [0..<Suc n])"
        using True False n(3)
        by (subst scanline_loop_unfold, subst upt_shift_map)
           (auto simp add: record_row_def aet_at_shift[symmetric] simp del: upt_Suc)
      have c: "scanline_loop emit et y aet out
             = Some (out @ concat (map (\<lambda>j. emit (y + j) (aet_at et y aet j)) [0..<Suc n]))"
        using True False n(4)
        by (subst scanline_loop_unfold, subst upt_shift_map)
           (auto simp add: aet_at_shift[symmetric] simp del: upt_Suc)
      from n(1) a b c show ?thesis
        by (intro exI[of _ "Suc n"]) simp
    qed
  qed
qed


lemma set_advance_prune:
  "set (advance_prune y xs) =
     {e\<lparr>currentX := currentX e + inverseSlope e\<rparr> | e. e \<in> set xs \<and> int y < maximumY e}"
  by (auto simp: advance_prune_def)

lemma aet_at_maximumY:
  "e \<in> set (aet_at et y aet j) \<Longrightarrow> maximumY e \<in> maximumY ` (set aet \<union> set (concat et))"
proof (induction j arbitrary: e)
  case 0
  then show ?case
    by (auto simp: set_load_sorted et_row_def split: if_splits)
next
  case (Suc j)
  from Suc.prems consider
    (old) "e \<in> set (advance_prune (y + Suc j) (aet_at et y aet j))"
    | (new) "e \<in> set (et_row et (y + Suc j))"
    by (auto simp: aet_at.simps(2) set_load_sorted)
  then show ?case
  proof cases
    case old
    then obtain e0 where "e0 \<in> set (aet_at et y aet j)" "maximumY e = maximumY e0"
      by (auto simp: set_advance_prune)
    with Suc.IH[of e0] show ?thesis by simp
  next
    case new
    then have "y + Suc j < length et" "e \<in> set (et ! (y + Suc j))"
      by (auto simp: et_row_def split: if_splits)
    then have "e \<in> set (concat et)"
      by auto
    then show ?thesis by blast
  qed
qed

lemma aet_at_Suc_cases:
  "e \<in> set (aet_at et y aet (Suc j)) \<Longrightarrow>
     int (y + Suc j) < maximumY e \<or> e \<in> set (et_row et (y + Suc j))"
  by (auto simp: aet_at.simps(2) set_load_sorted set_advance_prune)

lemma aet_at_quiet:
  assumes "\<forall>e \<in> set aet \<union> set (concat et). maximumY e \<le> int M"
    and "length et \<le> y + Suc j" and "M \<le> y + Suc j"
  shows "aet_at et y aet (Suc j) = []"
proof (rule ccontr)
  assume "aet_at et y aet (Suc j) \<noteq> []"
  then obtain e where e: "e \<in> set (aet_at et y aet (Suc j))"
    by (cases "aet_at et y aet (Suc j)") auto
  from aet_at_maximumY[OF e] assms(1) have "maximumY e \<le> int M" by auto
  moreover from aet_at_Suc_cases[OF e] assms(2) have "int (y + Suc j) < maximumY e"
    by (auto simp: et_row_def)
  ultimately show False using assms(3) by linarith
qed

lemma maximumY_bounded: "\<exists>M. \<forall>e \<in> set xs. maximumY e \<le> int M"
proof (induction xs)
  case Nil
  then show ?case by simp
next
  case (Cons x xs)
  then obtain M where M: "\<forall>e \<in> set xs. maximumY e \<le> int M" by blast
  have "\<forall>e \<in> set (x # xs). maximumY e \<le> int (max M (nat (maximumY x)))"
    using M by (auto simp: max_def)
  then show ?case by blast
qed

lemma aet_at_eventually_Nil:
  "\<exists>N. (\<forall>j\<ge>N. aet_at et y aet j = []) \<and> length et \<le> y + N"
proof -
  obtain M where M: "\<forall>e \<in> set (aet @ concat et). maximumY e \<le> int M"
    using maximumY_bounded by blast
  let ?N = "Suc (M + length et)"
  have "aet_at et y aet j = []" if "?N \<le> j" for j
  proof -
    from that obtain k where k: "j = Suc k" by (cases j) auto
    show ?thesis unfolding k
      using M that k by (intro aet_at_quiet[where M = M]) auto
  qed
  then show ?thesis by (intro exI[of _ ?N]) simp
qed

lemma scanline_loop_rows:
  "\<exists>n. (\<forall>j\<ge>n. aet_at et y aet j = []) \<and>
        scanline_loop record_row et y aet acc
          = Some (acc @ map (\<lambda>j. (y + j, aet_at et y aet j)) [0..<n]) \<and>
        scanline_loop emit et y aet out
          = Some (out @ concat (map (\<lambda>j. emit (y + j) (aet_at et y aet j)) [0..<n]))"
proof -
  obtain N where "\<forall>j\<ge>N. aet_at et y aet j = []" "length et \<le> y + N"
    using aet_at_eventually_Nil by blast
  from scanline_loop_closed[OF this, of acc emit out] show ?thesis by blast
qed


lemma skip_empty_ge: "y \<le> skip_empty et y"
proof (induction et y rule: skip_empty.induct)
  case (1 et y)
  show ?case
  proof (cases "y < length et \<and> et ! y = []")
    case True
    with "1.IH" have "y + 1 \<le> skip_empty et (y + 1)" by simp
    with True show ?thesis using skip_empty.simps[of et y] by simp
  next
    case False
    then show ?thesis using skip_empty.simps[of et y] by auto
  qed
qed

lemma skip_empty_rows_empty: "y \<le> r \<Longrightarrow> r < skip_empty et y \<Longrightarrow> et_row et r = []"
proof (induction et y rule: skip_empty.induct)
  case (1 et y)
  show ?case
  proof (cases "y < length et \<and> et ! y = []")
    case True
    with "1.prems" have r: "r < skip_empty et (y + 1)" using skip_empty.simps[of et y] by simp
    show ?thesis
    proof (cases "r = y")
      case True
      with \<open>y < length et \<and> et ! y = []\<close> show ?thesis by (simp add: et_row_def)
    next
      case False
      with "1.prems" have "y + 1 \<le> r" by simp
      from "1.IH"[OF True this r] show ?thesis .
    qed
  next
    case False
    then have "skip_empty et y = y" using skip_empty.simps[of et y] by auto
    with "1.prems" show ?thesis by simp
  qed
qed

lemma skip_empty_stop: "skip_empty et y < length et \<Longrightarrow> et ! skip_empty et y \<noteq> []"
proof (induction et y rule: skip_empty.induct)
  case (1 et y)
  show ?case
  proof (cases "y < length et \<and> et ! y = []")
    case True
    then have "skip_empty et y = skip_empty et (y + 1)" using skip_empty.simps[of et y] by simp
    with "1.IH"[OF True] "1.prems" show ?thesis by simp
  next
    case False
    then have "skip_empty et y = y" using skip_empty.simps[of et y] by auto
    with "1.prems" False show ?thesis by simp
  qed
qed

lemma scanline_run_closed:
  fixes emit :: "nat \<Rightarrow> EdgeData list \<Rightarrow> 'o list"
  assumes "3 \<le> length vs" and "y0 < length et"
    and et_def: "et = buildEdgeTable vs mh" and y0_def: "y0 = skip_empty et 0"
  shows "\<exists>n. (\<forall>j\<ge>n. aet_at et y0 [] j = []) \<and>
           scanline_rows vs mh = Some (map (\<lambda>j. (y0 + j, aet_at et y0 [] j)) [0..<n]) \<and>
           scanline_run emit vs mh
             = Some (concat (map (\<lambda>j. emit (y0 + j) (aet_at et y0 [] j)) [0..<n]))"
  using scanline_loop_rows[of et y0 "[]" "[]" emit "[]"] assms(1,2)
  by (simp add: scanline_rows_def scanline_run_def et_def y0_def Let_def)

lemma scanline_run_early:
  assumes "length vs < 3 \<or> length (buildEdgeTable vs mh) \<le> skip_empty (buildEdgeTable vs mh) 0"
  shows "scanline_run emit vs mh = Some []"
  using assms by (auto simp: scanline_run_def Let_def)

lemma scanline_run_concat:
  "\<exists>rows. scanline_rows vs mh = Some rows \<and>
      scanline_run emit vs mh = Some (concat (map (\<lambda>(y, aet). emit y aet) rows))"
proof (cases "length vs < 3 \<or> length (buildEdgeTable vs mh) \<le> skip_empty (buildEdgeTable vs mh) 0")
  case True
  then show ?thesis
    by (intro exI[of _ "[]"]) (simp add: scanline_rows_def scanline_run_early)
next
  case False
  then have "3 \<le> length vs" "skip_empty (buildEdgeTable vs mh) 0 < length (buildEdgeTable vs mh)"
    by auto
  from scanline_run_closed[OF this refl refl, of emit] show ?thesis
    by (auto simp: comp_def)
qed


section \<open>Evaluating the model on a polygon\<close>

lemma skip_empty_unfold:
  "skip_empty et y = (if y < length et \<and> et_row et y = [] then skip_empty et (Suc y) else y)"
  using skip_empty.simps[of et y] by (auto simp: et_row_def)

lemma scanline_run_unfold:
  "scanline_run emit vs mh =
    (if length vs < 3 then Some []
     else if nat mh \<le> skip_empty (buildEdgeTable vs mh) 0 then Some []
     else scanline_loop emit (buildEdgeTable vs mh) (skip_empty (buildEdgeTable vs mh) 0) [] [])"
  by (simp add: scanline_run_def Let_def length_buildEdgeTable)

lemmas eval_entries = edge_entries_def List.map_filter_def edge_entry_def
  calculateInverseSlope_def Let_def upt_rec

lemmas eval_start = skip_empty_unfold et_row_buildEdgeTable length_buildEdgeTable

lemmas eval_loop = scanline_run_unfold scanline_loop_unfold load_sorted_eq advance_prune_def
  et_row_buildEdgeTable length_buildEdgeTable

lemmas eval_emit = emit_spans_def emit_triangles_def record_row_def round_x_def
  double_to_int_def Let_def

lemma scenario_A_entries:
  "edge_entries scenario_A 60 =
     [(10, \<lparr>maximumY = 10, currentX = 10, inverseSlope = 0, minimumY = 10\<rparr>),
      (11, \<lparr>maximumY = 50, currentX = 50, inverseSlope = 0, minimumY = 11\<rparr>),
      (50, \<lparr>maximumY = 50, currentX = 50, inverseSlope = 0, minimumY = 50\<rparr>),
      (11, \<lparr>maximumY = 50, currentX = 10, inverseSlope = 0, minimumY = 11\<rparr>)]"
  by (simp add: scenario_A_def eval_entries)

lemma scenario_A_start: "skip_empty (buildEdgeTable scenario_A 60) 0 = 10"
  by (simp add: eval_start scenario_A_entries)

lemma scenario_A_length: "length scenario_A = 4"
  by (simp add: scenario_A_def)

lemma scenario_A_fill:
  assumes "50 < maxWidth"
  shows "fillPolygon scenario_A 60 maxWidth = Some (map (\<lambda>row. Span row 10 50) [11..49])"
  using assms
  by (simp add: fillPolygon_def scenario_A_start scenario_A_length eval_loop scenario_A_entries
       eval_emit)
     (simp add: Span_def upto_rec1)

lemma small_triangle_entries:
  "edge_entries small_triangle 3 =
     [(0, \<lparr>maximumY = 0, currentX = 0, inverseSlope = 0, minimumY = 0\<rparr>),
      (1, \<lparr>maximumY = 2, currentX = 3 / 2, inverseSlope = - 1 / 2, minimumY = 1\<rparr>),
      (1, \<lparr>maximumY = 2, currentX = 1 / 2, inverseSlope = 1 / 2, minimumY = 1\<rparr>)]"
  by (simp add: small_triangle_def eval_entries)

lemma small_triangle_start: "skip_empty (buildEdgeTable small_triangle 3) 0 = 0"
  by (subst skip_empty_unfold) (simp add: et_row_buildEdgeTable small_triangle_entries)

lemma small_triangle_length: "length small_triangle = 3"
  by (simp add: small_triangle_def)

lemma small_triangle_fill: "fillPolygon small_triangle 3 3 = Some [GlLine 1 1 3 1]"
  by (simp add: fillPolygon_def small_triangle_start small_triangle_length eval_loop
      small_triangle_entries eval_emit)

lemma small_triangle_rows:
  "scanline_rows small_triangle 3 = Some
     [(0, [\<lparr>maximumY = 0, currentX = 0, inverseSlope = 0, minimumY = 0\<rparr>]),
      (1, [\<lparr>maximumY = 2, currentX = 1 / 2, inverseSlope = 1 / 2, minimumY = 1\<rparr>,
           \<lparr>maximumY = 2, currentX = 3 / 2, inverseSlope = - 1 / 2, minimumY = 1\<rparr>]),
      (2, [])]"
  by (simp add: scanline_rows_def small_triangle_start small_triangle_length eval_loop
      small_triangle_entries eval_emit)

section \<open>Termination and degenerate input\<close>

text \<open>
  C5. For every vertex sequence and every \<^verbatim>\<open>maxHeight\<close> (and \<^verbatim>\<open>maxWidth\<close>),
  \<^verbatim>\<open>fillPolygon\<close> and \<^verbatim>\<open>generateTriangulation\<close> terminate: the loop, a partial
  function whose value is \<open>None\<close> where it does not return, returns a result. The rows
  it visits are consecutive, from the lowest non-empty row of the Edge Table on.
\<close>

theorem fill_and_triangulation_terminate:
  "(\<exists>drawn. fillPolygon vs maxHeight maxWidth = Some drawn) \<and>
   (\<exists>triangles. generateTriangulation vs maxHeight = Some triangles) \<and>
   (\<exists>rows. scanline_rows vs maxHeight = Some rows \<and>
      map fst rows = map (\<lambda>j. skip_empty (buildEdgeTable vs maxHeight) 0 + j) [0..<length rows])"
proof -
  have 1: "\<exists>drawn. fillPolygon vs maxHeight maxWidth = Some drawn"
    using scanline_run_concat[of vs maxHeight "emit_spans maxHeight maxWidth"]
    by (auto simp: fillPolygon_def)
  have 2: "\<exists>triangles. generateTriangulation vs maxHeight = Some triangles"
    using scanline_run_concat[of vs maxHeight emit_triangles]
    by (auto simp: generateTriangulation_def)
  have 3: "\<exists>rows. scanline_rows vs maxHeight = Some rows \<and>
      map fst rows = map (\<lambda>j. skip_empty (buildEdgeTable vs maxHeight) 0 + j) [0..<length rows]"
  proof (cases "length vs < 3 \<or>
      length (buildEdgeTable vs maxHeight) \<le> skip_empty (buildEdgeTable vs maxHeight) 0")
    case True
    then show ?thesis by (simp add: scanline_rows_def scanline_run_early)
  next
    case False
    then have "3 \<le> length vs"
      "skip_empty (buildEdgeTable vs maxHeight) 0 < length (buildEdgeTable vs maxHeight)"
      by auto
    from scanline_run_closed[OF this refl refl, of record_row] show ?thesis
      by (auto simp: comp_def)
  qed
  from 1 2 3 show ?thesis by blast
qed

text \<open>
  C7. With fewer than three vertices, and likewise with \<^verbatim>\<open>maxHeight = 0\<close>,
  \<^verbatim>\<open>fillPolygon\<close> and \<^verbatim>\<open>generateTriangulation\<close> return normally with nothing
  drawn and no triangle.
\<close>

theorem degenerate_input_empty_result:
  assumes "length vs < 3 \<or> maxHeight = 0"
  shows "fillPolygon vs maxHeight maxWidth = Some [] \<and> generateTriangulation vs maxHeight = Some []"
proof -
  from assms have "length vs < 3 \<or>
      length (buildEdgeTable vs maxHeight) \<le> skip_empty (buildEdgeTable vs maxHeight) 0"
    by (auto simp: length_buildEdgeTable)
  then show ?thesis
    by (simp add: fillPolygon_def generateTriangulation_def scanline_run_early)
qed


theorem fill_and_triangulation_terminate_witness:
  "fillPolygon small_triangle 3 3 \<noteq> None \<and> generateTriangulation small_triangle 3 \<noteq> None
   \<and> scanline_rows small_triangle 3 \<noteq> None"
  using fill_and_triangulation_terminate[of small_triangle 3 3] by auto

theorem degenerate_input_empty_result_witness:
  "length ([] :: Point2D list) < 3 \<and> fillPolygon [] 60 60 = Some []
   \<and> generateTriangulation [] 60 = Some []
   \<and> fillPolygon scenario_A 0 60 = Some [] \<and> generateTriangulation scenario_A 0 = Some []"
  using degenerate_input_empty_result[of "[]" 60 60]
    degenerate_input_empty_result[of scenario_A 0 60]
  by simp

section \<open>Scenario A\<close>

text \<open>
  C2, as the spec states it: the fill of the square with \<^verbatim>\<open>maxHeight = 60\<close> draws the
  span 10..50 on every row from 10 to 49. It does not: row 10 holds the horizontal edge
  only, and both vertical edges are binned at row 11.
\<close>

theorem scenario_A_rows_10_to_49_counterexample:
  "fillPolygon scenario_A 60 60 \<noteq> Some (map (\<lambda>row. Span row 10 50) [10..49]) \<and>
   fillPolygon scenario_A 60 60 = Some (map (\<lambda>row. Span row 10 50) [11..49])"
proof -
  have "fillPolygon scenario_A 60 60 = Some (map (\<lambda>row. Span row 10 50) [11..49])"
    by (rule scenario_A_fill) simp
  moreover have "length (map (\<lambda>row. Span row 10 50) [10..49])
      \<noteq> length (map (\<lambda>row. Span row 10 50) [11..49])"
    by simp
  ultimately show ?thesis by (metis option.inject)
qed

text \<open>
  C2, amended: the fill of the square with \<^verbatim>\<open>maxHeight = 60\<close> and any \<^verbatim>\<open>maxWidth\<close>
  above 50 draws exactly one span per row for the rows 11 to 49, each the span 10..50, and
  nothing on any other row.
\<close>

theorem scenario_A_rows_11_to_49:
  assumes "50 < maxWidth"
  shows "fillPolygon scenario_A 60 maxWidth = Some (map (\<lambda>row. Span row 10 50) [11..49])"
  using assms by (rule scenario_A_fill)

theorem scenario_A_rows_11_to_49_witness:
  "(50::int) < 60 \<and> fillPolygon scenario_A 60 60 = Some (map (\<lambda>row. Span row 10 50) [11..49])"
  using scenario_A_rows_11_to_49[of 60] by simp

section \<open>What fillPolygon draws\<close>

lemma span_pairs_Cons2:
  "span_pairs mh mw y (a # b # rest) =
     (if clamped_start a b \<le> clamped_end mw a b \<and> int y < mh
      then [Span (int y) (clamped_start a b) (clamped_end mw a b)] else [])
     @ span_pairs mh mw y rest"
  by (simp add: Let_def clamped_start_def clamped_end_def Span_def min_def max_def)

lemma span_pairs_in_raster: "p \<in> set (span_pairs mh mw y aet) \<Longrightarrow> in_raster mh mw p"
proof (induction aet rule: induct_list012)
  case (3 a b rest)
  then show ?case
    unfolding span_pairs_Cons2
    by (auto simp: Span_def clamped_start_def clamped_end_def split: if_splits)
qed simp_all

lemma span_pairs_row: "p \<in> set (span_pairs mh mw y aet) \<Longrightarrow> primitive_row p = int y"
proof (induction aet rule: induct_list012)
  case (3 a b rest)
  then show ?case
    unfolding span_pairs_Cons2 by (auto simp: Span_def split: if_splits)
qed simp_all

lemma emit_spans_in_raster: "p \<in> set (emit_spans mh mw y aet) \<Longrightarrow> in_raster mh mw p"
  by (auto simp: emit_spans_def Let_def dest: span_pairs_in_raster split: if_splits)

lemma emit_spans_row: "p \<in> set (emit_spans mh mw y aet) \<Longrightarrow> primitive_row p = int y"
  by (auto simp: emit_spans_def Let_def dest: span_pairs_row split: if_splits)

text \<open>
  C9. Every primitive \<^verbatim>\<open>fillPolygon\<close> draws lies inside the raster: a span on a row in
  \<open>[0, maxHeight)\<close> with \<open>0 \<le> x1 \<le> x2 \<le> maxWidth - 1\<close>, or a point with
  \<open>0 \<le> x < maxWidth\<close> on such a row. A pair of edges draws the span between its
  clamped ends when that interval is not empty and the row is below \<^verbatim>\<open>maxHeight\<close>, and
  nothing otherwise.
\<close>

theorem fillPolygon_within_raster:
  assumes "fillPolygon vs maxHeight maxWidth = Some drawn"
  shows "(\<forall>p \<in> set drawn. in_raster maxHeight maxWidth p) \<and>
         (\<forall>y edgeA edgeB rest.
            span_pairs maxHeight maxWidth y (edgeA # edgeB # rest) =
              (if clamped_start edgeA edgeB \<le> clamped_end maxWidth edgeA edgeB
                  \<and> int y < maxHeight
               then [Span (int y) (clamped_start edgeA edgeB) (clamped_end maxWidth edgeA edgeB)]
               else [])
              @ span_pairs maxHeight maxWidth y rest)"
proof -
  obtain rows where "fillPolygon vs maxHeight maxWidth
      = Some (concat (map (\<lambda>(y, aet). emit_spans maxHeight maxWidth y aet) rows))"
    using scanline_run_concat[of vs maxHeight "emit_spans maxHeight maxWidth"]
    by (auto simp: fillPolygon_def)
  with assms have "drawn = concat (map (\<lambda>(y, aet). emit_spans maxHeight maxWidth y aet) rows)"
    by simp
  then have "\<forall>p \<in> set drawn. in_raster maxHeight maxWidth p"
    by (auto dest: emit_spans_in_raster)
  then show ?thesis using span_pairs_Cons2 by blast
qed

lemma small_triangle_fill_narrow: "fillPolygon small_triangle 3 2 = Some [GlLine 1 1 2 1]"
  by (simp add: fillPolygon_def small_triangle_start small_triangle_length eval_loop
      small_triangle_entries eval_emit)

theorem fillPolygon_within_raster_witness:
  "fillPolygon small_triangle 3 2 = Some [GlLine 1 1 2 1] \<and> in_raster 3 2 (GlLine 1 1 2 1)"
  using fillPolygon_within_raster[of small_triangle 3 2 "[GlLine 1 1 2 1]"]
    small_triangle_fill_narrow
  by simp

section \<open>What generateTriangulation emits\<close>

lemma triangle_pairs_trapezoid:
  "triangle_pairs y aet
     = concat (map (\<lambda>j. trapezoid y (aet ! (2 * j)) (aet ! (2 * j + 1))) [0..<length aet div 2])"
proof (induction aet rule: induct_list012)
  case (3 a b rest)
  have "length (a # b # rest) div 2 = Suc (length rest div 2)" by simp
  then show ?case
    using 3 by (simp add: upt_shift_map trapezoid_def Let_def del: upt_Suc)
qed simp_all

lemma emit_triangles_trapezoid:
  "emit_triangles y aet
     = concat (map (\<lambda>j. trapezoid y (aet ! (2 * j)) (aet ! (2 * j + 1))) [0..<length aet div 2])"
proof (cases "2 \<le> length aet")
  case True
  then show ?thesis by (simp add: emit_triangles_def triangle_pairs_trapezoid)
next
  case False
  then have "length aet div 2 = 0" by simp
  with False show ?thesis by (simp add: emit_triangles_def)
qed

text \<open>
  C8. The triangles \<^verbatim>\<open>generateTriangulation\<close> returns are, row by row in the order the
  loop visits the rows, and for every consecutive pair \<open>(2j, 2j + 1)\<close> of the sorted
  Active Edge Table of the row, the two triangles of the trapezoid of the pair:
  \<open>(xA, y), (xB, y), (xA', y + 1)\<close> and \<open>(xB, y), (xB', y + 1), (xA', y + 1)\<close>, with
  \<open>xA' = xA + inverseSlopeA\<close> and \<open>xB' = xB + inverseSlopeB\<close>, each x truncated to an
  integer; and nothing else.
\<close>

theorem generateTriangulation_trapezoids:
  "\<exists>rows. scanline_rows vs maxHeight = Some rows \<and>
     generateTriangulation vs maxHeight = Some (concat (map (\<lambda>(y, aet).
        concat (map (\<lambda>j. trapezoid y (aet ! (2 * j)) (aet ! (2 * j + 1)))
          [0..<length aet div 2])) rows))"
  using scanline_run_concat[of vs maxHeight emit_triangles]
  by (simp add: generateTriangulation_def emit_triangles_trapezoid)

theorem generateTriangulation_trapezoids_witness:
  "generateTriangulation small_triangle 3 = Some
     [[\<lparr>coordinateX = 0, coordinateY = 1\<rparr>, \<lparr>coordinateX = 1, coordinateY = 1\<rparr>,
       \<lparr>coordinateX = 1, coordinateY = 2\<rparr>],
      [\<lparr>coordinateX = 1, coordinateY = 1\<rparr>, \<lparr>coordinateX = 1, coordinateY = 2\<rparr>,
       \<lparr>coordinateX = 1, coordinateY = 2\<rparr>]]"
  using generateTriangulation_trapezoids[of small_triangle 3]
  by (simp add: small_triangle_rows trapezoid_def double_to_int_def)

section \<open>The rows of a run\<close>

lemma scanline_rows_member:
  assumes "scanline_rows vs mh = Some rows" and "(y, aet) \<in> set rows"
  shows "\<exists>j. y = skip_empty (buildEdgeTable vs mh) 0 + j \<and>
            aet = aet_at (buildEdgeTable vs mh) (skip_empty (buildEdgeTable vs mh) 0) [] j"
proof (cases "length vs < 3 \<or> length (buildEdgeTable vs mh) \<le> skip_empty (buildEdgeTable vs mh) 0")
  case True
  with assms show ?thesis by (simp add: scanline_rows_def scanline_run_early)
next
  case False
  then have "3 \<le> length vs" "skip_empty (buildEdgeTable vs mh) 0 < length (buildEdgeTable vs mh)"
    by auto
  from scanline_run_closed[OF this refl refl, of record_row] assms show ?thesis
    by auto
qed

lemma concat_map_single:
  "j < n \<Longrightarrow> (\<forall>i < n. i \<noteq> j \<longrightarrow> f i = []) \<Longrightarrow> concat (map f [0..<n]) = f j"
proof (induction n)
  case 0
  then show ?case by simp
next
  case (Suc n)
  show ?case
  proof (cases "j = n")
    case True
    with Suc.prems have "\<forall>i \<in> set [0..<n]. f i = []" by auto
    then have "concat (map f [0..<n]) = []" by simp
    with True show ?thesis by simp
  next
    case False
    with Suc.prems have "j < n" "\<forall>i < n. i \<noteq> j \<longrightarrow> f i = []" "f n = []" by auto
    with Suc.IH show ?thesis by simp
  qed
qed

lemma drawn_on_row:
  assumes "scanline_rows vs mh = Some rows" and "fillPolygon vs mh mw = Some drawn"
    and "(y, aet) \<in> set rows"
  shows "filter (\<lambda>p. primitive_row p = int y) drawn = emit_spans mh mw y aet"
proof (cases "length vs < 3 \<or> length (buildEdgeTable vs mh) \<le> skip_empty (buildEdgeTable vs mh) 0")
  case True
  with assms show ?thesis by (simp add: scanline_rows_def scanline_run_early)
next
  case False
  define et where "et = buildEdgeTable vs mh"
  define y0 where "y0 = skip_empty et 0"
  from False have "3 \<le> length vs" "y0 < length et" by (auto simp: et_def y0_def)
  from scanline_run_closed[OF this et_def y0_def, of "emit_spans mh mw"] assms(1,2)
  obtain n where rows: "rows = map (\<lambda>j. (y0 + j, aet_at et y0 [] j)) [0..<n]"
    and drawn: "drawn = concat (map (\<lambda>j. emit_spans mh mw (y0 + j) (aet_at et y0 [] j)) [0..<n])"
    by (auto simp: fillPolygon_def)
  from assms(3) rows obtain j where j: "j < n" "y = y0 + j" "aet = aet_at et y0 [] j"
    by auto
  let ?f = "\<lambda>i. filter (\<lambda>p. primitive_row p = int y) (emit_spans mh mw (y0 + i) (aet_at et y0 [] i))"
  have "\<forall>i < n. i \<noteq> j \<longrightarrow> ?f i = []"
    using j(2) by (auto simp: filter_empty_conv dest!: emit_spans_row)
  from concat_map_single[OF j(1) this]
  have "concat (map ?f [0..<n]) = ?f j" .
  moreover have "?f j = emit_spans mh mw y aet"
    using j(2,3) by (auto simp: filter_id_conv dest: emit_spans_row)
  ultimately show ?thesis
    by (simp add: drawn filter_concat comp_def)
qed

section \<open>Rows with an odd number of active edges\<close>

lemma notched_rectangle_entries:
  "edge_entries notched_rectangle 6 =
    [(0, \<lparr>maximumY = 0, currentX = 0, inverseSlope = 0, minimumY = 0\<rparr>),
     (1, \<lparr>maximumY = 4, currentX = 8, inverseSlope = 0, minimumY = 1\<rparr>),
     (4, \<lparr>maximumY = 4, currentX = 8, inverseSlope = 0, minimumY = 4\<rparr>),
     (3, \<lparr>maximumY = 4, currentX = 6, inverseSlope = 0, minimumY = 3\<rparr>),
     (2, \<lparr>maximumY = 2, currentX = 6, inverseSlope = 0, minimumY = 2\<rparr>),
     (3, \<lparr>maximumY = 4, currentX = 4, inverseSlope = 0, minimumY = 3\<rparr>),
     (4, \<lparr>maximumY = 4, currentX = 4, inverseSlope = 0, minimumY = 4\<rparr>),
     (1, \<lparr>maximumY = 4, currentX = 0, inverseSlope = 0, minimumY = 1\<rparr>)]"
  by (simp add: notched_rectangle_def eval_entries)

lemma notched_rectangle_start: "skip_empty (buildEdgeTable notched_rectangle 6) 0 = 0"
  by (subst skip_empty_unfold) (simp add: et_row_buildEdgeTable notched_rectangle_entries)

lemma notched_rectangle_length: "length notched_rectangle = 8"
  by (simp add: notched_rectangle_def)

lemma notched_rectangle_rows:
  "scanline_rows notched_rectangle 6 = Some
    [(0, [\<lparr>maximumY = 0, currentX = 0, inverseSlope = 0, minimumY = 0\<rparr>]),
     (1, [\<lparr>maximumY = 4, currentX = 0, inverseSlope = 0, minimumY = 1\<rparr>,
          \<lparr>maximumY = 4, currentX = 8, inverseSlope = 0, minimumY = 1\<rparr>]),
     (2, [\<lparr>maximumY = 4, currentX = 0, inverseSlope = 0, minimumY = 1\<rparr>,
          \<lparr>maximumY = 2, currentX = 6, inverseSlope = 0, minimumY = 2\<rparr>,
          \<lparr>maximumY = 4, currentX = 8, inverseSlope = 0, minimumY = 1\<rparr>]),
     (3, [\<lparr>maximumY = 4, currentX = 0, inverseSlope = 0, minimumY = 1\<rparr>,
          \<lparr>maximumY = 4, currentX = 4, inverseSlope = 0, minimumY = 3\<rparr>,
          \<lparr>maximumY = 4, currentX = 6, inverseSlope = 0, minimumY = 3\<rparr>,
          \<lparr>maximumY = 4, currentX = 8, inverseSlope = 0, minimumY = 1\<rparr>]),
     (4, [\<lparr>maximumY = 4, currentX = 4, inverseSlope = 0, minimumY = 4\<rparr>,
          \<lparr>maximumY = 4, currentX = 8, inverseSlope = 0, minimumY = 4\<rparr>]),
     (5, [])]"
  by (simp add: scanline_rows_def notched_rectangle_start notched_rectangle_length eval_loop
      notched_rectangle_entries eval_emit)

lemma notched_rectangle_fill:
  "fillPolygon notched_rectangle 6 10 = Some
     [GlLine 0 1 9 1, GlLine 0 2 7 2, GlPoint 8 2, GlLine 0 3 5 3, GlLine 6 3 9 3,
      GlLine 4 4 9 4]"
  by (simp add: fillPolygon_def notched_rectangle_start notched_rectangle_length eval_loop
      notched_rectangle_entries eval_emit)

text \<open>
  C3, as the spec states it: on every row where the Active Edge Table holds an odd number
  of edges, one edge included, the fill draws a point at the rounded x of the last edge.
  It does not on a row with one edge: row 0 of the small triangle holds the horizontal
  edge only, its rounded x is 0, inside the raster, and no point is drawn.
\<close>

theorem single_edge_row_point_counterexample:
  "scanline_rows small_triangle 3 = Some
     [(0, [\<lparr>maximumY = 0, currentX = 0, inverseSlope = 0, minimumY = 0\<rparr>]),
      (1, [\<lparr>maximumY = 2, currentX = 1 / 2, inverseSlope = 1 / 2, minimumY = 1\<rparr>,
           \<lparr>maximumY = 2, currentX = 3 / 2, inverseSlope = - 1 / 2, minimumY = 1\<rparr>]),
      (2, [])] \<and>
   odd (length [\<lparr>maximumY = 0, currentX = 0, inverseSlope = 0, minimumY = 0\<rparr>]) \<and>
   round_x (currentX \<lparr>maximumY = 0, currentX = 0, inverseSlope = 0, minimumY = 0\<rparr>) = 0 \<and>
   in_raster 3 3 (GlPoint 0 0) \<and>
   fillPolygon small_triangle 3 3 = Some [GlLine 1 1 3 1] \<and>
   GlPoint 0 0 \<notin> set [GlLine 1 1 3 1]"
  by (simp add: small_triangle_rows small_triangle_fill round_x_def double_to_int_def)

text \<open>
  C3, amended: on every row where the Active Edge Table holds an odd number of edges and
  more than one, what the fill draws on that row is the paired spans followed by a single
  point at the rounded x of the last, unpaired edge, the point only when it lies inside
  the raster; on a row where the table holds exactly one edge it draws nothing.
\<close>

theorem fillPolygon_odd_row:
  assumes "scanline_rows vs maxHeight = Some rows"
    and "fillPolygon vs maxHeight maxWidth = Some drawn"
    and "(y, aet) \<in> set rows" and "odd (length aet)"
  shows "filter (\<lambda>p. primitive_row p = int y) drawn =
     (if length aet = 1 then []
      else span_pairs maxHeight maxWidth y aet @
        (if 0 \<le> round_x (currentX (last aet)) \<and> round_x (currentX (last aet)) < maxWidth
            \<and> int y < maxHeight
         then [GlPoint (round_x (currentX (last aet))) (int y)] else []))"
proof -
  from assms(4) have "aet \<noteq> []" by auto
  then have l: "aet ! (length aet - 1) = last aet" by (simp add: last_conv_nth)
  from assms(4) have "length aet mod 2 = 1" "2 \<le> length aet \<longleftrightarrow> length aet \<noteq> 1"
    by (auto simp: odd_iff_mod_2_eq_one elim: oddE)
  with drawn_on_row[OF assms(1-3)] l show ?thesis
    by (simp add: emit_spans_def Let_def)
qed

theorem fillPolygon_odd_row_witness:
  "(2, [\<lparr>maximumY = 4, currentX = 0, inverseSlope = 0, minimumY = 1\<rparr>,
        \<lparr>maximumY = 2, currentX = 6, inverseSlope = 0, minimumY = 2\<rparr>,
        \<lparr>maximumY = 4, currentX = 8, inverseSlope = 0, minimumY = 1\<rparr>])
     \<in> set (the (scanline_rows notched_rectangle 6)) \<and>
   filter (\<lambda>p. primitive_row p = 2) (the (fillPolygon notched_rectangle 6 10))
     = [Span 2 0 6, GlPoint 8 2]"
  using fillPolygon_odd_row[OF notched_rectangle_rows notched_rectangle_fill,
      of 2 "[\<lparr>maximumY = 4, currentX = 0, inverseSlope = 0, minimumY = 1\<rparr>,
        \<lparr>maximumY = 2, currentX = 6, inverseSlope = 0, minimumY = 2\<rparr>,
        \<lparr>maximumY = 4, currentX = 8, inverseSlope = 0, minimumY = 1\<rparr>]"]
  by (simp add: notched_rectangle_rows notched_rectangle_fill Span_def)

section \<open>The edges of the Active Edge Table\<close>

lemma edge_entry_rows:
  "edge_entry vs mh i = Some (r, e) \<Longrightarrow> minimumY e = int r \<and> int r \<le> maximumY e"
  by (auto simp: edge_entry_def Let_def split: if_splits prod.splits)

lemma et_row_buildEdgeTable_rows:
  "e \<in> set (et_row (buildEdgeTable vs mh) r) \<Longrightarrow> minimumY e = int r \<and> int r \<le> maximumY e"
  by (auto simp: et_row_buildEdgeTable edge_entries_def List.map_filter_def
      dest: edge_entry_rows split: if_splits)

lemma advanced_0 [simp]: "advanced 0 e = e"
  by (simp add: advanced_def)

lemma advanced_Suc:
  "(advanced d e)\<lparr>currentX := currentX (advanced d e) + inverseSlope (advanced d e)\<rparr>
     = advanced (Suc d) e"
  by (simp add: advanced_def algebra_simps)

lemma advanced_fields [simp]:
  "maximumY (advanced d e) = maximumY e" "minimumY (advanced d e) = minimumY e"
  "inverseSlope (advanced d e) = inverseSlope e"
  by (simp_all add: advanced_def)

lemma aet_at_member:
  assumes "e \<in> set (aet_at et y [] j)"
  shows "\<exists>r e0. y \<le> r \<and> r \<le> y + j \<and> e0 \<in> set (et_row et r) \<and> e = advanced (y + j - r) e0
           \<and> (r < y + j \<longrightarrow> int (y + j) < maximumY e0)"
  using assms
proof (induction j arbitrary: e)
  case 0
  then have "e \<in> set (et_row et y)" by (simp add: set_load_sorted)
  then show ?case by (intro exI[of _ y] exI[of _ e]) simp
next
  case (Suc j)
  from Suc.prems consider
    (old) e' where "e' \<in> set (aet_at et y [] j)" "int (y + Suc j) < maximumY e'"
      "e = e'\<lparr>currentX := currentX e' + inverseSlope e'\<rparr>"
    | (new) "e \<in> set (et_row et (y + Suc j))"
    by (auto simp: aet_at.simps(2) set_load_sorted set_advance_prune)
  then show ?case
  proof cases
    case old
    from Suc.IH[OF old(1)] obtain r e0 where r: "y \<le> r" "r \<le> y + j" "e0 \<in> set (et_row et r)"
      "e' = advanced (y + j - r) e0" by blast
    have "e = advanced (y + Suc j - r) e0"
      using old(3) r(2,4) advanced_Suc[of "y + j - r" e0] by (simp add: Suc_diff_le)
    moreover have "int (y + Suc j) < maximumY e0" using old(2) r(4) by simp
    ultimately show ?thesis using r(1-3)
      by (intro exI[of _ r] exI[of _ e0]) simp
  next
    case new
    then show ?thesis by (intro exI[of _ "y + Suc j"] exI[of _ e]) simp
  qed
qed

text \<open>
  C4, as the spec states it: at every row of the emission step, every edge in the Active
  Edge Table has \<open>currentScanLine < yMax\<close>, horizontal edges included. It does not hold:
  on row 2 of the notched rectangle the table holds the horizontal edge of the notch, whose
  \<^verbatim>\<open>maximumY\<close> is 2, and the span drawn on that row ends on it.
\<close>

theorem active_edge_below_yMax_counterexample:
  "scanline_rows notched_rectangle 6 = Some
    [(0, [\<lparr>maximumY = 0, currentX = 0, inverseSlope = 0, minimumY = 0\<rparr>]),
     (1, [\<lparr>maximumY = 4, currentX = 0, inverseSlope = 0, minimumY = 1\<rparr>,
          \<lparr>maximumY = 4, currentX = 8, inverseSlope = 0, minimumY = 1\<rparr>]),
     (2, [\<lparr>maximumY = 4, currentX = 0, inverseSlope = 0, minimumY = 1\<rparr>,
          \<lparr>maximumY = 2, currentX = 6, inverseSlope = 0, minimumY = 2\<rparr>,
          \<lparr>maximumY = 4, currentX = 8, inverseSlope = 0, minimumY = 1\<rparr>]),
     (3, [\<lparr>maximumY = 4, currentX = 0, inverseSlope = 0, minimumY = 1\<rparr>,
          \<lparr>maximumY = 4, currentX = 4, inverseSlope = 0, minimumY = 3\<rparr>,
          \<lparr>maximumY = 4, currentX = 6, inverseSlope = 0, minimumY = 3\<rparr>,
          \<lparr>maximumY = 4, currentX = 8, inverseSlope = 0, minimumY = 1\<rparr>]),
     (4, [\<lparr>maximumY = 4, currentX = 4, inverseSlope = 0, minimumY = 4\<rparr>,
          \<lparr>maximumY = 4, currentX = 8, inverseSlope = 0, minimumY = 4\<rparr>]),
     (5, [])] \<and>
   \<not> int 2 < maximumY \<lparr>maximumY = 2, currentX = 6, inverseSlope = 0, minimumY = 2\<rparr> \<and>
   fillPolygon notched_rectangle 6 10 = Some
     [GlLine 0 1 9 1, Span 2 0 6, GlPoint 8 2, GlLine 0 3 5 3, GlLine 6 3 9 3, GlLine 4 4 9 4]"
  by (simp add: notched_rectangle_rows notched_rectangle_fill Span_def)

text \<open>
  C4, amended: at every row \<open>y\<close> of the emission step, and for every input polygon,
  every edge in the Active Edge Table has \<open>yMin \<le> y \<le> yMax\<close> for its bucket row
  \<open>yMin\<close>, and \<open>y < yMax\<close> unless \<open>y\<close> is its bucket row: an edge enters the table
  when the scanline reaches its bucket row, and it is no longer there on any later row
  from \<open>yMax\<close> on. (A horizontal edge has \<open>yMax = yMin\<close>; an adjusted edge one row high
  has \<open>yMax\<close> equal to its bucket row.)
\<close>

theorem active_edge_rows:
  assumes "scanline_rows vs maxHeight = Some rows" and "(y, aet) \<in> set rows"
    and "e \<in> set aet"
  shows "minimumY e \<le> int y \<and> int y \<le> maximumY e \<and>
         (int y < maximumY e \<or> minimumY e = int y)"
proof -
  define et where "et = buildEdgeTable vs maxHeight"
  from scanline_rows_member[OF assms(1,2)] obtain j
    where j: "y = skip_empty et 0 + j" "aet = aet_at et (skip_empty et 0) [] j"
    by (auto simp: et_def)
  from aet_at_member[of e et "skip_empty et 0" j] assms(3) j
  obtain r e0 where r: "skip_empty et 0 \<le> r" "r \<le> y" "e0 \<in> set (et_row et r)"
    "e = advanced (y - r) e0" "r < y \<longrightarrow> int y < maximumY e0"
    by auto
  from et_row_buildEdgeTable_rows[of e0 vs maxHeight r] r(3)
  have "minimumY e0 = int r" "int r \<le> maximumY e0" by (auto simp: et_def)
  with r show ?thesis by (cases "r < y") auto
qed

theorem active_edge_rows_witness:
  "(2, [\<lparr>maximumY = 4, currentX = 0, inverseSlope = 0, minimumY = 1\<rparr>,
        \<lparr>maximumY = 2, currentX = 6, inverseSlope = 0, minimumY = 2\<rparr>,
        \<lparr>maximumY = 4, currentX = 8, inverseSlope = 0, minimumY = 1\<rparr>])
     \<in> set (the (scanline_rows notched_rectangle 6)) \<and>
   minimumY \<lparr>maximumY = 2, currentX = 6, inverseSlope = 0, minimumY = 2\<rparr> \<le> int 2 \<and>
   int 2 \<le> maximumY \<lparr>maximumY = 2, currentX = 6, inverseSlope = 0, minimumY = 2\<rparr> \<and>
   minimumY \<lparr>maximumY = 2, currentX = 6, inverseSlope = (0::real), minimumY = 2\<rparr> = int 2"
proof -
  let ?e = "\<lparr>maximumY = 2, currentX = 6, inverseSlope = (0::real), minimumY = 2\<rparr>"
  let ?aet = "[\<lparr>maximumY = 4, currentX = 0, inverseSlope = 0, minimumY = 1\<rparr>, ?e,
        \<lparr>maximumY = 4, currentX = 8, inverseSlope = 0, minimumY = 1\<rparr>]"
  have m: "(2, ?aet) \<in> set (the (scanline_rows notched_rectangle 6))"
    by (simp add: notched_rectangle_rows)
  then have m': "(2, ?aet) \<in> set
    [(0, [\<lparr>maximumY = 0, currentX = 0, inverseSlope = 0, minimumY = 0\<rparr>]),
     (1, [\<lparr>maximumY = 4, currentX = 0, inverseSlope = 0, minimumY = 1\<rparr>,
          \<lparr>maximumY = 4, currentX = 8, inverseSlope = 0, minimumY = 1\<rparr>]),
     (2, [\<lparr>maximumY = 4, currentX = 0, inverseSlope = 0, minimumY = 1\<rparr>,
          \<lparr>maximumY = 2, currentX = 6, inverseSlope = 0, minimumY = 2\<rparr>,
          \<lparr>maximumY = 4, currentX = 8, inverseSlope = 0, minimumY = 1\<rparr>]),
     (3, [\<lparr>maximumY = 4, currentX = 0, inverseSlope = 0, minimumY = 1\<rparr>,
          \<lparr>maximumY = 4, currentX = 4, inverseSlope = 0, minimumY = 3\<rparr>,
          \<lparr>maximumY = 4, currentX = 6, inverseSlope = 0, minimumY = 3\<rparr>,
          \<lparr>maximumY = 4, currentX = 8, inverseSlope = 0, minimumY = 1\<rparr>]),
     (4, [\<lparr>maximumY = 4, currentX = 4, inverseSlope = 0, minimumY = 4\<rparr>,
          \<lparr>maximumY = 4, currentX = 8, inverseSlope = 0, minimumY = 4\<rparr>]),
     (5, [])]"
    by simp
  have e: "?e \<in> set ?aet" by simp
  from active_edge_rows[OF notched_rectangle_rows m' e] m show ?thesis by simp
qed

section \<open>The local-extremum adjustment\<close>

lemma edge_entry_in_bucket:
  assumes "2 \<le> length vs" and "i < length vs" and "edge_entry vs mh i = Some (r, e)"
  shows "e \<in> set (buildEdgeTable vs mh ! r)"
proof -
  have "(r, e) \<in> set (edge_entries vs mh)"
    using assms by (auto simp: edge_entries_def List.map_filter_def intro!: image_eqI[of _ _ i])
  then have "e \<in> set (et_row (buildEdgeTable vs mh) r)"
    by (force simp: et_row_buildEdgeTable)
  moreover have "r < nat mh" using assms(3) by (rule edge_entry_row_less)
  ultimately show ?thesis by (simp add: et_row_def length_buildEdgeTable)
qed

lemma prev_index_next_index: "2 \<le> length vs \<Longrightarrow> i < length vs \<Longrightarrow> prev_index vs (next_index vs i) = i"
  by (auto simp: prev_index_def next_index_def mod_Suc)

lemma next_index_next_index: "next_index vs (next_index vs i) = (i + 2) mod length vs"
  by (simp add: next_index_def mod_Suc_eq)

text \<open>
  C1, as the spec states it: the adjustment is applied exactly when both vertices adjacent
  to the lower endpoint lie strictly above its row, and with exactly one of them above
  the edge is binned at \<open>yMin\<close>, unadjusted. It is not: the right side of the square of
  Scenario A has the lower endpoint (50,10), whose neighbours are (10,10), on the same
  row, and (50,50); the edge is binned at row 11, not in bucket 10.
\<close>

theorem level_neighbour_adjusted_counterexample:
  "coordinateY (scenario_A ! 1) \<noteq> coordinateY (scenario_A ! next_index scenario_A 1) \<and>
   lower_index scenario_A 1 = 1 \<and>
   coordinateY (scenario_A ! 1) = 10 \<and>
   \<not> neighbours_strictly_above scenario_A 1 \<and>
   edge_entry scenario_A 60 1
     = Some (11, \<lparr>maximumY = 50, currentX = 50, inverseSlope = 0, minimumY = 11\<rparr>) \<and>
   buildEdgeTable scenario_A 60 ! 10
     = [\<lparr>maximumY = 10, currentX = 10, inverseSlope = 0, minimumY = 10\<rparr>] \<and>
   buildEdgeTable scenario_A 60 ! 11
     = [\<lparr>maximumY = 50, currentX = 50, inverseSlope = 0, minimumY = 11\<rparr>,
        \<lparr>maximumY = 50, currentX = 10, inverseSlope = 0, minimumY = 11\<rparr>]"
proof -
  have "buildEdgeTable scenario_A 60 ! 10 = et_row (buildEdgeTable scenario_A 60) 10"
    "buildEdgeTable scenario_A 60 ! 11 = et_row (buildEdgeTable scenario_A 60) 11"
    by (simp_all add: et_row_def length_buildEdgeTable)
  then show ?thesis
    by (simp add: et_row_buildEdgeTable scenario_A_entries)
       (simp add: scenario_A_def next_index_def prev_index_def lower_index_def
         neighbours_strictly_above_def edge_entry_def calculateInverseSlope_def Let_def)
qed

text \<open>
  C1, amended: for every non-horizontal polygon edge whose lower endpoint's row \<open>yMin\<close>
  lies in \<open>[0, maxHeight)\<close>, the adjustment is applied exactly when neither vertex
  adjacent to the lower endpoint lies below the lower endpoint's row (each is above it or
  on it): then the edge is binned at \<open>yMin + 1\<close> with its starting x advanced by one
  \<open>inverseSlope\<close> step, provided \<open>yMin + 1 < maxHeight\<close>, and is not binned at all
  otherwise; if an adjacent vertex lies below, the edge is binned at \<open>yMin\<close> with its
  starting x equal to the lower endpoint's x. The binned edge is in that bucket of the
  table \<^verbatim>\<open>buildEdgeTable\<close> returns.
\<close>

theorem local_extremum_adjustment:
  assumes "2 \<le> length vs" and "i < length vs"
    and "coordinateY (vs ! i) \<noteq> coordinateY (vs ! next_index vs i)"
    and "lo = vs ! lower_index vs i" and "up = vs ! upper_index vs i"
    and "0 \<le> coordinateY lo" and "coordinateY lo < maxHeight"
    and "slope = of_int (coordinateX up - coordinateX lo) / of_int (coordinateY up - coordinateY lo)"
  shows "edge_entry vs maxHeight i =
     (if neighbours_not_below vs (lower_index vs i)
      then (if coordinateY lo + 1 < maxHeight
            then Some (nat (coordinateY lo + 1),
              \<lparr>maximumY = coordinateY up, currentX = of_int (coordinateX lo) + slope,
               inverseSlope = slope, minimumY = coordinateY lo + 1\<rparr>)
            else None)
      else Some (nat (coordinateY lo),
              \<lparr>maximumY = coordinateY up, currentX = of_int (coordinateX lo),
               inverseSlope = slope, minimumY = coordinateY lo\<rparr>)) \<and>
     (\<forall>r e. edge_entry vs maxHeight i = Some (r, e) \<longrightarrow> e \<in> set (buildEdgeTable vs maxHeight ! r))"
proof -
  have pn: "(Suc i mod length vs + length vs - Suc 0) mod length vs = i"
    using prev_index_next_index[OF assms(1,2)] by (simp add: prev_index_def next_index_def)
  have 1: "edge_entry vs maxHeight i =
     (if neighbours_not_below vs (lower_index vs i)
      then (if coordinateY lo + 1 < maxHeight
            then Some (nat (coordinateY lo + 1),
              \<lparr>maximumY = coordinateY up, currentX = of_int (coordinateX lo) + slope,
               inverseSlope = slope, minimumY = coordinateY lo + 1\<rparr>)
            else None)
      else Some (nat (coordinateY lo),
              \<lparr>maximumY = coordinateY up, currentX = of_int (coordinateX lo),
               inverseSlope = slope, minimumY = coordinateY lo\<rparr>))"
  proof (cases "coordinateY (vs ! next_index vs i) < coordinateY (vs ! i)")
    case True
    then show ?thesis
      using assms(3-8) pn
      by (simp add: edge_entry_def Let_def lower_index_def upper_index_def
          neighbours_not_below_def calculateInverseSlope_def next_index_def prev_index_def
          mod_Suc_eq)
  next
    case False
    with assms(3) have "coordinateY (vs ! i) < coordinateY (vs ! next_index vs i)" by simp
    then show ?thesis
      using assms(3-8)
      by (simp add: edge_entry_def Let_def lower_index_def upper_index_def
          neighbours_not_below_def calculateInverseSlope_def next_index_def prev_index_def
          mod_Suc_eq)
  qed
  have 2: "\<forall>r e. edge_entry vs maxHeight i = Some (r, e) \<longrightarrow> e \<in> set (buildEdgeTable vs maxHeight ! r)"
    using edge_entry_in_bucket[OF assms(1,2)] by blast
  from 1 2 show ?thesis by blast
qed


theorem local_extremum_adjustment_witness:
  "edge_entry valley_triangle 6 0
     = Some (5, \<lparr>maximumY = 10, currentX = 35 / 6, inverseSlope = 5 / 6, minimumY = 5\<rparr>) \<and>
   \<lparr>maximumY = 10, currentX = 35 / 6, inverseSlope = 5 / 6, minimumY = 5\<rparr>
     \<in> set (buildEdgeTable valley_triangle 6 ! 5) \<and>
   edge_entry valley_triangle 5 0 = None \<and>
   edge_entry slanted_triangle 5 1
     = Some (2, \<lparr>maximumY = 4, currentX = 4, inverseSlope = - 2, minimumY = 2\<rparr>) \<and>
   \<lparr>maximumY = 4, currentX = 4, inverseSlope = - 2, minimumY = 2\<rparr>
     \<in> set (buildEdgeTable slanted_triangle 5 ! 2)"
proof -
  have v: "length valley_triangle = 3"
    "valley_triangle ! 0 = \<lparr>coordinateX = 5, coordinateY = 4\<rparr>"
    "valley_triangle ! Suc 0 = \<lparr>coordinateX = 10, coordinateY = 10\<rparr>"
    "valley_triangle ! 2 = \<lparr>coordinateX = 0, coordinateY = 10\<rparr>"
    by (simp_all add: valley_triangle_def)
  have vi: "next_index valley_triangle 0 = Suc 0" "prev_index valley_triangle 0 = 2"
    by (simp_all add: next_index_def prev_index_def v)
  have vl: "lower_index valley_triangle 0 = 0" "upper_index valley_triangle 0 = Suc 0"
    by (simp_all add: lower_index_def upper_index_def vi v)
  have vn: "neighbours_not_below valley_triangle (lower_index valley_triangle 0)"
    by (simp add: neighbours_not_below_def vl vi v)
  have v1: "2 \<le> length valley_triangle" "0 < length valley_triangle" by (simp_all add: v)
  have v3: "coordinateY (valley_triangle ! 0)
      \<noteq> coordinateY (valley_triangle ! next_index valley_triangle 0)"
    by (simp add: vi v)
  have v4: "valley_triangle ! 0 = valley_triangle ! lower_index valley_triangle 0"
    "valley_triangle ! Suc 0 = valley_triangle ! upper_index valley_triangle 0"
    by (simp_all add: vl)
  have v6: "0 \<le> coordinateY (valley_triangle ! 0)" "coordinateY (valley_triangle ! 0) < 6"
    "coordinateY (valley_triangle ! 0) < 5"
    by (simp_all add: v)
  have v8: "(5 / 6 :: real)
      = of_int (coordinateX (valley_triangle ! Suc 0) - coordinateX (valley_triangle ! 0))
        / of_int (coordinateY (valley_triangle ! Suc 0) - coordinateY (valley_triangle ! 0))"
    by (simp add: v)
  note t6 = local_extremum_adjustment[OF v1 v3 v4 v6(1,2) v8]
  note t5 = local_extremum_adjustment[OF v1 v3 v4 v6(1,3) v8]
  have a1: "edge_entry valley_triangle 6 0
     = Some (5, \<lparr>maximumY = 10, currentX = 35 / 6, inverseSlope = 5 / 6, minimumY = 5\<rparr>)"
    using t6[THEN conjunct1] vn by (simp add: v)
  have a2: "\<lparr>maximumY = 10, currentX = 35 / 6, inverseSlope = 5 / 6, minimumY = 5\<rparr>
     \<in> set (buildEdgeTable valley_triangle 6 ! 5)"
    using t6[THEN conjunct2, rule_format, OF a1] .
  have b: "edge_entry valley_triangle 5 0 = None"
    using t5[THEN conjunct1] vn by (simp add: v)
  have s: "length slanted_triangle = 3"
    "slanted_triangle ! 0 = \<lparr>coordinateX = 0, coordinateY = 0\<rparr>"
    "slanted_triangle ! Suc 0 = \<lparr>coordinateX = 4, coordinateY = 2\<rparr>"
    "slanted_triangle ! 2 = \<lparr>coordinateX = 0, coordinateY = 4\<rparr>"
    by (simp_all add: slanted_triangle_def)
  have si: "next_index slanted_triangle (Suc 0) = 2" "prev_index slanted_triangle (Suc 0) = 0"
    by (simp_all add: next_index_def prev_index_def s)
  have sl: "lower_index slanted_triangle (Suc 0) = Suc 0"
    "upper_index slanted_triangle (Suc 0) = 2"
    by (simp_all add: lower_index_def upper_index_def si s)
  have sn: "\<not> neighbours_not_below slanted_triangle (lower_index slanted_triangle (Suc 0))"
    by (simp add: neighbours_not_below_def sl si s)
  have s1: "2 \<le> length slanted_triangle" "Suc 0 < length slanted_triangle" by (simp_all add: s)
  have s3: "coordinateY (slanted_triangle ! Suc 0)
      \<noteq> coordinateY (slanted_triangle ! next_index slanted_triangle (Suc 0))"
    by (simp add: si s)
  have s4: "slanted_triangle ! Suc 0 = slanted_triangle ! lower_index slanted_triangle (Suc 0)"
    "slanted_triangle ! 2 = slanted_triangle ! upper_index slanted_triangle (Suc 0)"
    by (simp_all add: sl)
  have s6: "0 \<le> coordinateY (slanted_triangle ! Suc 0)"
    "coordinateY (slanted_triangle ! Suc 0) < 5"
    by (simp_all add: s)
  have s8: "(- 2 :: real)
      = of_int (coordinateX (slanted_triangle ! 2) - coordinateX (slanted_triangle ! Suc 0))
        / of_int (coordinateY (slanted_triangle ! 2) - coordinateY (slanted_triangle ! Suc 0))"
    by (simp add: s)
  note u = local_extremum_adjustment[OF s1 s3 s4 s6 s8]
  have c1: "edge_entry slanted_triangle 5 (Suc 0)
     = Some (2, \<lparr>maximumY = 4, currentX = 4, inverseSlope = - 2, minimumY = 2\<rparr>)"
    using u[THEN conjunct1] sn by (simp add: s)
  have c2: "\<lparr>maximumY = 4, currentX = 4, inverseSlope = - 2, minimumY = 2\<rparr>
     \<in> set (buildEdgeTable slanted_triangle 5 ! 2)"
    using u[THEN conjunct2, rule_format, OF c1] .
  from a1 a2 b c1 c2 show ?thesis by simp
qed

section \<open>Edges that outlive the table\<close>

lemma aet_at_contains:
  assumes "e0 \<in> set (et_row et r)" and "y \<le> r" and "r \<le> y + j"
    and "r < y + j \<longrightarrow> int (y + j) < maximumY e0"
  shows "advanced (y + j - r) e0 \<in> set (aet_at et y aet j)"
  using assms(3,4)
proof (induction j)
  case 0
  with assms(1,2) show ?case by (simp add: set_load_sorted)
next
  case (Suc j)
  show ?case
  proof (cases "r = y + Suc j")
    case True
    with assms(1) show ?thesis by (simp add: aet_at.simps(2) set_load_sorted)
  next
    case False
    with Suc.prems have r: "r \<le> y + j" "int (y + Suc j) < maximumY e0" by auto
    then have "advanced (y + j - r) e0 \<in> set (aet_at et y aet j)"
      by (intro Suc.IH) auto
    then have "advanced (Suc (y + j - r)) e0
        \<in> set (advance_prune (y + Suc j) (aet_at et y aet j))"
      using r(2) unfolding set_advance_prune advanced_Suc[symmetric] by force
    moreover have "Suc (y + j - r) = y + Suc j - r" using r(1) by simp
    ultimately show ?thesis by (simp add: aet_at.simps(2) set_load_sorted)
  qed
qed

lemma aet_at_skip:
  "(\<forall>r. y \<le> r \<and> r < y + k \<longrightarrow> et_row et r = []) \<Longrightarrow>
     aet_at et y [] (k + j) = aet_at et (y + k) [] j"
proof (induction k arbitrary: y)
  case 0
  then show ?case by simp
next
  case (Suc k)
  have "et_row et y = []" using Suc.prems by simp
  then have "advance_prune (Suc y) (load_sorted et y []) = []"
    by (simp add: load_sorted_eq)
  then have "aet_at et y [] (Suc k + j) = aet_at et (Suc y) [] (k + j)"
    by (simp add: aet_at_shift)
  moreover have "aet_at et (Suc y) [] (k + j) = aet_at et (Suc y + k) [] j"
    using Suc.prems by (intro Suc.IH) auto
  ultimately show ?case by simp
qed

lemma length_filter_load_sorted:
  "length (filter P (load_sorted et y aet))
     = length (filter P aet) + length (filter P (et_row et y))"
  by (simp add: load_sorted_eq filter_sort)

lemma length_filter_advance_prune:
  assumes "y' \<le> Y"
  shows "length (filter (\<lambda>e. int Y < maximumY e) (advance_prune y' aet))
     = length (filter (\<lambda>e. int Y < maximumY e) aet)"
proof -
  have "filter (\<lambda>e. int Y < maximumY e) (advance_prune y' aet)
      = map (\<lambda>e. e\<lparr>currentX := currentX e + inverseSlope e\<rparr>)
          (filter (\<lambda>e. int Y < maximumY e) aet)"
    using assms by (induction aet) (auto simp: advance_prune_def)
  then show ?thesis by simp
qed

lemma length_filter_aet_at:
  "j \<le> Y \<Longrightarrow>
     length (filter (\<lambda>e. int Y < maximumY e) (aet_at et 0 [] j))
       = (\<Sum>r\<leftarrow>[0..<Suc j]. length (filter (\<lambda>e. int Y < maximumY e) (et_row et r)))"
proof (induction j)
  case 0
  then show ?case by (simp add: length_filter_load_sorted)
next
  case (Suc j)
  then show ?case
    by (simp add: aet_at.simps(2) length_filter_load_sorted length_filter_advance_prune)
qed

lemma length_filter_concat:
  "length (filter P (concat xss)) = (\<Sum>xs\<leftarrow>xss. length (filter P xs))"
  by (induction xss) simp_all

lemma sum_list_et_rows:
  "(\<Sum>r\<leftarrow>[0..<Suc (length et)]. length (filter P (et_row et r)))
     = length (filter P (concat et))"
proof -
  have "map (\<lambda>r. length (filter P (et_row et r))) [0..<length et]
      = map (\<lambda>xs. length (filter P xs)) et"
    by (intro nth_equalityI) (simp_all add: et_row_def)
  then show ?thesis by (simp add: length_filter_concat et_row_def)
qed

lemma aet_at_table_height:
  assumes "y0 = skip_empty et 0" and "y0 \<le> length et"
  shows "length (filter (\<lambda>e. int (length et) < maximumY e) (aet_at et y0 [] (length et - y0)))
     = length (filter (\<lambda>e. int (length et) < maximumY e) (concat et))"
proof -
  have "\<forall>r. 0 \<le> r \<and> r < 0 + y0 \<longrightarrow> et_row et r = []"
    using skip_empty_rows_empty[of 0 _ et] assms(1) by simp
  from aet_at_skip[OF this, of "length et - y0"] assms(2)
  have "aet_at et y0 [] (length et - y0) = aet_at et 0 [] (length et)" by simp
  then show ?thesis
    by (simp add: length_filter_aet_at sum_list_et_rows del: upt_Suc)
qed

lemma skip_empty_le: "y \<le> length et \<Longrightarrow> skip_empty et y \<le> length et"
proof (induction et y rule: skip_empty.induct)
  case (1 et y)
  show ?case
  proof (cases "y < length et \<and> et ! y = []")
    case True
    with "1.IH" have "skip_empty et (y + 1) \<le> length et" by simp
    with True show ?thesis using skip_empty.simps[of et y] by simp
  next
    case False
    with "1.prems" show ?thesis using skip_empty.simps[of et y] by auto
  qed
qed


lemma buildEdgeTable_as_rows:
  "buildEdgeTable vs mh
     = map (\<lambda>r. map snd (filter (\<lambda>en. fst en = r) (edge_entries vs mh))) [0..<nat mh]"
  by (intro nth_equalityI)
     (simp_all add: length_buildEdgeTable et_row_buildEdgeTable[symmetric] et_row_def)

lemma valley_triangle_entries_5: "edge_entries valley_triangle 5 = []"
  by (simp add: valley_triangle_def eval_entries)

lemma valley_triangle_entries_6:
  "edge_entries valley_triangle 6 =
     [(5, \<lparr>maximumY = 10, currentX = 35 / 6, inverseSlope = 5 / 6, minimumY = 5\<rparr>),
      (5, \<lparr>maximumY = 10, currentX = 25 / 6, inverseSlope = - (5 / 6), minimumY = 5\<rparr>)]"
  by (simp add: valley_triangle_def eval_entries)

lemma valley_triangle_length: "length valley_triangle = 3"
  by (simp add: valley_triangle_def)

lemma valley_triangle_start_5: "skip_empty (buildEdgeTable valley_triangle 5) 0 = 5"
  by (simp add: eval_start valley_triangle_entries_5)

lemma valley_triangle_start_6: "skip_empty (buildEdgeTable valley_triangle 6) 0 = 5"
  by (simp add: eval_start valley_triangle_entries_6)

lemma valley_triangle_rows_6:
  "scanline_rows valley_triangle 6 = Some
    [(5, [\<lparr>maximumY = 10, currentX = 25 / 6, inverseSlope = - (5 / 6), minimumY = 5\<rparr>,
          \<lparr>maximumY = 10, currentX = 35 / 6, inverseSlope = 5 / 6, minimumY = 5\<rparr>]),
     (6, [\<lparr>maximumY = 10, currentX = 10 / 3, inverseSlope = - (5 / 6), minimumY = 5\<rparr>,
          \<lparr>maximumY = 10, currentX = 20 / 3, inverseSlope = 5 / 6, minimumY = 5\<rparr>]),
     (7, [\<lparr>maximumY = 10, currentX = 5 / 2, inverseSlope = - (5 / 6), minimumY = 5\<rparr>,
          \<lparr>maximumY = 10, currentX = 15 / 2, inverseSlope = 5 / 6, minimumY = 5\<rparr>]),
     (8, [\<lparr>maximumY = 10, currentX = 5 / 3, inverseSlope = - (5 / 6), minimumY = 5\<rparr>,
          \<lparr>maximumY = 10, currentX = 25 / 3, inverseSlope = 5 / 6, minimumY = 5\<rparr>]),
     (9, [\<lparr>maximumY = 10, currentX = 5 / 6, inverseSlope = - (5 / 6), minimumY = 5\<rparr>,
          \<lparr>maximumY = 10, currentX = 55 / 6, inverseSlope = 5 / 6, minimumY = 5\<rparr>])]"
  by (simp add: scanline_rows_def valley_triangle_start_6 valley_triangle_length eval_loop
      valley_triangle_entries_6 eval_emit)

lemma valley_triangle_triangulation_6:
  "generateTriangulation valley_triangle 6 = Some
    [[\<lparr>coordinateX = 4, coordinateY = 5\<rparr>, \<lparr>coordinateX = 5, coordinateY = 5\<rparr>,
      \<lparr>coordinateX = 3, coordinateY = 6\<rparr>],
     [\<lparr>coordinateX = 5, coordinateY = 5\<rparr>, \<lparr>coordinateX = 6, coordinateY = 6\<rparr>,
      \<lparr>coordinateX = 3, coordinateY = 6\<rparr>],
     [\<lparr>coordinateX = 3, coordinateY = 6\<rparr>, \<lparr>coordinateX = 6, coordinateY = 6\<rparr>,
      \<lparr>coordinateX = 2, coordinateY = 7\<rparr>],
     [\<lparr>coordinateX = 6, coordinateY = 6\<rparr>, \<lparr>coordinateX = 7, coordinateY = 7\<rparr>,
      \<lparr>coordinateX = 2, coordinateY = 7\<rparr>],
     [\<lparr>coordinateX = 2, coordinateY = 7\<rparr>, \<lparr>coordinateX = 7, coordinateY = 7\<rparr>,
      \<lparr>coordinateX = 1, coordinateY = 8\<rparr>],
     [\<lparr>coordinateX = 7, coordinateY = 7\<rparr>, \<lparr>coordinateX = 8, coordinateY = 8\<rparr>,
      \<lparr>coordinateX = 1, coordinateY = 8\<rparr>],
     [\<lparr>coordinateX = 1, coordinateY = 8\<rparr>, \<lparr>coordinateX = 8, coordinateY = 8\<rparr>,
      \<lparr>coordinateX = 0, coordinateY = 9\<rparr>],
     [\<lparr>coordinateX = 8, coordinateY = 8\<rparr>, \<lparr>coordinateX = 9, coordinateY = 9\<rparr>,
      \<lparr>coordinateX = 0, coordinateY = 9\<rparr>],
     [\<lparr>coordinateX = 0, coordinateY = 9\<rparr>, \<lparr>coordinateX = 9, coordinateY = 9\<rparr>,
      \<lparr>coordinateX = 0, coordinateY = 10\<rparr>],
     [\<lparr>coordinateX = 9, coordinateY = 9\<rparr>, \<lparr>coordinateX = 10, coordinateY = 10\<rparr>,
      \<lparr>coordinateX = 0, coordinateY = 10\<rparr>]]"
  by (simp add: generateTriangulation_def valley_triangle_start_6 valley_triangle_length
      eval_loop valley_triangle_entries_6 eval_emit)

text \<open>
  C10, as the spec states it: with at least two edges whose lower endpoint's row lies in
  \<open>[0, maxHeight)\<close> and whose \<open>yMax\<close> exceeds \<^verbatim>\<open>maxHeight\<close>, those edges stay in the
  Active Edge Table up to row \<open>yMax - 1\<close> and triangles are emitted at rows from
  \<^verbatim>\<open>maxHeight\<close> on. It does not hold when the lower endpoint lies on the last row of
  the table: the two slanted edges of the valley triangle start at (5,4) and end on row
  10; with \<^verbatim>\<open>maxHeight = 5\<close> both are adjusted to row 5 and dropped, the table is
  empty, and no triangle is emitted.
\<close>

theorem valley_on_last_row_counterexample:
  "coordinateY (valley_triangle ! lower_index valley_triangle 0) = 4 \<and>
   coordinateY (valley_triangle ! upper_index valley_triangle 0) = 10 \<and>
   coordinateY (valley_triangle ! lower_index valley_triangle 2) = 4 \<and>
   coordinateY (valley_triangle ! upper_index valley_triangle 2) = 10 \<and>
   edge_entries valley_triangle 5 = [] \<and>
   scanline_rows valley_triangle 5 = Some [] \<and>
   generateTriangulation valley_triangle 5 = Some []"
proof -
  have "scanline_rows valley_triangle 5 = Some []"
    "generateTriangulation valley_triangle 5 = Some []"
    by (simp_all add: scanline_rows_def generateTriangulation_def scanline_run_unfold
        valley_triangle_start_5)
  moreover have "coordinateY (valley_triangle ! lower_index valley_triangle 0) = 4"
    "coordinateY (valley_triangle ! upper_index valley_triangle 0) = 10"
    "coordinateY (valley_triangle ! lower_index valley_triangle 2) = 4"
    "coordinateY (valley_triangle ! upper_index valley_triangle 2) = 10"
    by (simp_all add: valley_triangle_def lower_index_def upper_index_def next_index_def)
  ultimately show ?thesis by (simp add: valley_triangle_entries_5)
qed

text \<open>
  C10, amended: \<^verbatim>\<open>generateTriangulation\<close> applies no row clamp to its output. Every edge
  in the Edge Table (its bucket row, the lower endpoint's row after the adjustment, lies
  in \<open>[0, maxHeight)\<close>) is in the Active Edge Table, advanced by one \<open>inverseSlope\<close>
  step per row, on every row from its bucket row up to \<open>yMax - 1\<close>; and for every
  polygon whose Edge Table holds at least two edges with \<open>yMax\<close> above \<^verbatim>\<open>maxHeight\<close>,
  the loop visits row \<^verbatim>\<open>maxHeight\<close> with at least two edges in the table and emits a
  triangle all of whose vertices lie on rows from \<^verbatim>\<open>maxHeight\<close> on.
\<close>

theorem triangulation_beyond_maxHeight:
  assumes "3 \<le> length vs"
    and "2 \<le> length (filter (\<lambda>e. maxHeight < maximumY e) (concat (buildEdgeTable vs maxHeight)))"
    and "scanline_rows vs maxHeight = Some rows"
    and "generateTriangulation vs maxHeight = Some triangles"
  shows "(\<forall>r e y. e \<in> set (et_row (buildEdgeTable vs maxHeight) r) \<and> r \<le> y \<and> int y < maximumY e
            \<longrightarrow> (\<exists>aet. (y, aet) \<in> set rows \<and> advanced (y - r) e \<in> set aet)) \<and>
         (\<exists>aet. (nat maxHeight, aet) \<in> set rows \<and> 2 \<le> length aet) \<and>
         (\<exists>t \<in> set triangles. \<forall>p \<in> set t. maxHeight \<le> coordinateY p)"
proof -
  define et where "et = buildEdgeTable vs maxHeight"
  define y0 where "y0 = skip_empty et 0"
  have len: "length et = nat maxHeight" by (simp add: et_def length_buildEdgeTable)
  have "et \<noteq> []"
  proof
    assume "et = []"
    then have "concat (buildEdgeTable vs maxHeight) = []" by (simp add: et_def)
    with assms(2) show False by simp
  qed
  then have "0 < length et" by simp
  with len have mh: "0 < maxHeight" "int (length et) = maxHeight" by linarith+
  have y0_le: "y0 \<le> length et" unfolding y0_def by (rule skip_empty_le) simp
  have cnt: "2 \<le> length (filter (\<lambda>e. int (length et) < maximumY e)
      (aet_at et y0 [] (length et - y0)))"
    using aet_at_table_height[OF y0_def y0_le] assms(2) mh(2) by (simp add: et_def)
  have "y0 \<noteq> length et"
  proof
    assume "y0 = length et"
    then have "aet_at et y0 [] (length et - y0) = []"
      using aet_at_Nil_beyond[of et y0 "length et - y0"] by simp
    with cnt show False by simp
  qed
  with y0_le have y0_lt: "y0 < length et" by simp
  from scanline_run_closed[OF assms(1) y0_lt et_def y0_def, of emit_triangles] assms(3,4)
  obtain n where quiet: "\<forall>j\<ge>n. aet_at et y0 [] j = []"
    and rows: "rows = map (\<lambda>j. (y0 + j, aet_at et y0 [] j)) [0..<n]"
    and tris: "triangles = concat (map (\<lambda>j. emit_triangles (y0 + j) (aet_at et y0 [] j)) [0..<n])"
    by (auto simp: generateTriangulation_def)
  have visited: "(y0 + j, aet_at et y0 [] j) \<in> set rows \<and> j < n" if "aet_at et y0 [] j \<noteq> []" for j
  proof -
    from that quiet have "j < n" by (meson not_le)
    then show ?thesis by (auto simp: rows)
  qed
  have 1: "\<exists>aet. (y, aet) \<in> set rows \<and> advanced (y - r) e \<in> set aet"
    if "e \<in> set (et_row et r)" "r \<le> y" "int y < maximumY e" for r e y
  proof -
    have "y0 \<le> r"
    proof (rule ccontr)
      assume "\<not> y0 \<le> r"
      then have "et_row et r = []" using skip_empty_rows_empty[of 0 r et] by (simp add: y0_def)
      with that(1) show False by simp
    qed
    with that(2) obtain j where j: "y = y0 + j" by (metis le_Suc_ex le_trans)
    have "advanced (y0 + j - r) e \<in> set (aet_at et y0 [] j)"
      using that \<open>y0 \<le> r\<close> j by (intro aet_at_contains) auto
    moreover from this have "aet_at et y0 [] j \<noteq> []" by auto
    ultimately show ?thesis using visited[of j] j by auto
  qed
  let ?j = "length et - y0"
  let ?aet = "aet_at et y0 [] ?j"
  have l2: "2 \<le> length ?aet"
    using cnt length_filter_le[of "\<lambda>e. int (length et) < maximumY e" ?aet] by linarith
  then have "?aet \<noteq> []" by auto
  from visited[OF this] y0_le len have v: "(nat maxHeight, ?aet) \<in> set rows" "?j < n" by auto
  from l2 obtain a b rest where abr: "?aet = a # b # rest"
    by (cases ?aet; cases "tl ?aet") auto
  let ?t = "[\<lparr>coordinateX = double_to_int (currentX a), coordinateY = int (y0 + ?j)\<rparr>,
             \<lparr>coordinateX = double_to_int (currentX b), coordinateY = int (y0 + ?j)\<rparr>,
             \<lparr>coordinateX = double_to_int (currentX a + inverseSlope a),
               coordinateY = int (y0 + ?j) + 1\<rparr>]"
  have "?t \<in> set (emit_triangles (y0 + ?j) ?aet)"
    unfolding abr by (simp add: emit_triangles_def Let_def)
  with v(2) have "?t \<in> set triangles" unfolding tris by auto
  moreover have "\<forall>p \<in> set ?t. maxHeight \<le> coordinateY p"
    using y0_le mh by auto
  ultimately have 3: "\<exists>t \<in> set triangles. \<forall>p \<in> set t. maxHeight \<le> coordinateY p" by blast
  from 1 v(1) l2 3 show ?thesis unfolding et_def by blast
qed


theorem triangulation_beyond_maxHeight_witness:
  "2 \<le> length (filter (\<lambda>e. 6 < maximumY e) (concat (buildEdgeTable valley_triangle 6))) \<and>
   (\<exists>aet. (6, aet) \<in> set (the (scanline_rows valley_triangle 6)) \<and> 2 \<le> length aet) \<and>
   (\<exists>t \<in> set (the (generateTriangulation valley_triangle 6)). \<forall>p \<in> set t. 6 \<le> coordinateY p) \<and>
   (\<exists>aet. (9, aet) \<in> set (the (scanline_rows valley_triangle 6)) \<and>
      advanced 4 \<lparr>maximumY = 10, currentX = 35 / 6, inverseSlope = 5 / 6, minimumY = 5\<rparr>
        \<in> set aet)"
proof -
  let ?e = "\<lparr>maximumY = 10, currentX = 35 / 6, inverseSlope = 5 / 6, minimumY = 5\<rparr>"
  have l: "3 \<le> length valley_triangle" by (simp add: valley_triangle_length)
  have c: "2 \<le> length (filter (\<lambda>e. 6 < maximumY e) (concat (buildEdgeTable valley_triangle 6)))"
    by (simp add: buildEdgeTable_as_rows valley_triangle_entries_6 upt_rec)
  have r: "scanline_rows valley_triangle 6 = Some (the (scanline_rows valley_triangle 6))"
    by (simp add: valley_triangle_rows_6)
  have g: "generateTriangulation valley_triangle 6
      = Some (the (generateTriangulation valley_triangle 6))"
    by (simp add: valley_triangle_triangulation_6)
  note t = triangulation_beyond_maxHeight[OF l c r g]
  have e: "?e \<in> set (et_row (buildEdgeTable valley_triangle 6) 5) \<and> 5 \<le> (9::nat)
      \<and> int 9 < maximumY ?e"
    by (simp add: et_row_buildEdgeTable valley_triangle_entries_6)
  from t[THEN conjunct1, rule_format, OF e]
  have 1: "\<exists>aet. (9, aet) \<in> set (the (scanline_rows valley_triangle 6)) \<and> advanced 4 ?e \<in> set aet"
    by simp
  from t[THEN conjunct2] have 2:
    "(\<exists>aet. (6, aet) \<in> set (the (scanline_rows valley_triangle 6)) \<and> 2 \<le> length aet) \<and>
     (\<exists>t \<in> set (the (generateTriangulation valley_triangle 6)). \<forall>p \<in> set t. 6 \<le> coordinateY p)"
    by simp
  from c 1 2 show ?thesis by blast
qed

section \<open>Vertical translation\<close>

lemma length_translate_polygon [simp]: "length (translate_polygon k vs) = length vs"
  by (simp add: translate_polygon_def)

lemma nth_translate_polygon:
  "j < length vs \<Longrightarrow>
     translate_polygon k vs ! j = (vs ! j)\<lparr>coordinateY := coordinateY (vs ! j) + k\<rparr>"
  by (simp add: translate_polygon_def)

lemma edge_entry_translate:
  assumes "2 \<le> length vs" and "i < length vs"
    and "\<forall>p \<in> set vs. 0 \<le> coordinateY p \<and> coordinateY p < mh \<and>
            0 \<le> coordinateY p + k \<and> coordinateY p + k < mh"
  shows "edge_entry (translate_polygon k vs) mh i
     = map_option (translate_entry k) (edge_entry vs mh i)"
proof -
  let ?n = "length vs"
  have "0 < ?n" using assms(1) by linarith
  then have idx: "(i + 1) mod ?n < ?n" "(i + ?n - 1) mod ?n < ?n" "(i + 2) mod ?n < ?n"
    by simp_all
  have b: "0 \<le> coordinateY (vs ! j) \<and> coordinateY (vs ! j) < mh \<and>
            0 \<le> coordinateY (vs ! j) + k \<and> coordinateY (vs ! j) + k < mh" if "j < ?n" for j
    using assms(3) that by simp
  show ?thesis
    using b[OF assms(2)] b[OF idx(1)] b[OF idx(2)] b[OF idx(3)] idx assms(2)
    by (simp add: edge_entry_def Let_def nth_translate_polygon calculateInverseSlope_def
        translate_entry_def translate_edge_def)
       (auto simp: nat_eq_iff)
qed


lemma edge_entry_vertex_rows:
  assumes "2 \<le> length vs" and "i < length vs" and "edge_entry vs mh i = Some (r, e)"
  shows "(\<exists>p \<in> set vs. coordinateY p \<le> int r) \<and> (\<exists>p \<in> set vs. maximumY e = coordinateY p)"
proof -
  let ?a = "vs ! i" and ?b = "vs ! ((i + 1) mod length vs)"
  have "0 < length vs" using assms(1) by linarith
  then have "(i + 1) mod length vs < length vs" by simp
  with assms(2) have m: "?a \<in> set vs" "?b \<in> set vs" by (simp_all del: One_nat_def)
  from assms(3) have "(coordinateY ?a \<le> int r \<or> coordinateY ?b \<le> int r) \<and>
      (maximumY e = coordinateY ?a \<or> maximumY e = coordinateY ?b)"
    by (auto simp: edge_entry_def Let_def split: if_splits prod.splits)
  with m show ?thesis by blast
qed

lemma map_filter_map_option:
  "(\<forall>x \<in> set xs. f' x = map_option g (f x)) \<Longrightarrow>
     List.map_filter f' xs = map g (List.map_filter f xs)"
  by (induction xs) (auto simp: List.map_filter_simps split: option.splits)

lemma edge_entries_translate:
  assumes "\<forall>p \<in> set vs. 0 \<le> coordinateY p \<and> coordinateY p < mh \<and>
            0 \<le> coordinateY p + k \<and> coordinateY p + k < mh"
  shows "edge_entries (translate_polygon k vs) mh = map (translate_entry k) (edge_entries vs mh)"
proof (cases "length vs < 2")
  case True
  then show ?thesis by (simp add: edge_entries_def)
next
  case False
  then have "\<forall>i \<in> set [0..<length vs]. edge_entry (translate_polygon k vs) mh i
      = map_option (translate_entry k) (edge_entry vs mh i)"
    using assms by (auto intro!: edge_entry_translate)
  from map_filter_map_option[OF this] False show ?thesis
    by (simp add: edge_entries_def)
qed

lemma edge_entries_bounds:
  assumes "\<forall>p \<in> set vs. 0 \<le> coordinateY p \<and> coordinateY p < mh \<and>
            0 \<le> coordinateY p + k \<and> coordinateY p + k < mh"
    and "(r, e) \<in> set (edge_entries vs mh)"
  shows "0 \<le> int r + k \<and> maximumY e < mh \<and> maximumY e + k < mh"
proof -
  from assms(2) obtain i where "2 \<le> length vs" "i < length vs" "edge_entry vs mh i = Some (r, e)"
    by (auto simp: edge_entries_def List.map_filter_def split: if_splits)
  from edge_entry_vertex_rows[OF this] assms(1) show ?thesis by force
qed

lemma et_row_translate:
  assumes "\<forall>p \<in> set vs. 0 \<le> coordinateY p \<and> coordinateY p < mh \<and>
            0 \<le> coordinateY p + k \<and> coordinateY p + k < mh"
    and "int r' = int r + k"
  shows "et_row (buildEdgeTable (translate_polygon k vs) mh) r'
     = map (translate_edge k) (et_row (buildEdgeTable vs mh) r)"
proof -
  have "filter ((\<lambda>en. fst en = r') \<circ> translate_entry k) (edge_entries vs mh)
      = filter (\<lambda>en. fst en = r) (edge_entries vs mh)"
  proof (rule filter_cong[OF refl])
    fix en assume "en \<in> set (edge_entries vs mh)"
    then have "0 \<le> int (fst en) + k"
      using edge_entries_bounds[OF assms(1), of "fst en" "snd en"] by simp
    with assms(2) show "((\<lambda>en. fst en = r') \<circ> translate_entry k) en = (fst en = r)"
      by (auto simp: translate_entry_def)
  qed
  then show ?thesis
    by (simp add: et_row_buildEdgeTable edge_entries_translate[OF assms(1)] filter_map
        translate_entry_def comp_def)
qed

lemma et_row_translate_below:
  assumes "\<forall>p \<in> set vs. 0 \<le> coordinateY p \<and> coordinateY p < mh \<and>
            0 \<le> coordinateY p + k \<and> coordinateY p + k < mh"
    and "int r' < k"
  shows "et_row (buildEdgeTable (translate_polygon k vs) mh) r' = []"
proof -
  have "filter ((\<lambda>en. fst en = r') \<circ> translate_entry k) (edge_entries vs mh) = []"
    using assms(2) by (auto simp: filter_empty_conv translate_entry_def split: if_splits)
  then show ?thesis
    by (simp add: et_row_buildEdgeTable edge_entries_translate[OF assms(1)] filter_map)
qed

lemma et_row_negative_shift:
  assumes "\<forall>p \<in> set vs. 0 \<le> coordinateY p \<and> coordinateY p < mh \<and>
            0 \<le> coordinateY p + k \<and> coordinateY p + k < mh"
    and "int r + k < 0"
  shows "et_row (buildEdgeTable vs mh) r = []"
proof -
  have "filter (\<lambda>en. fst en = r) (edge_entries vs mh) = []"
    using assms(2) edge_entries_bounds[OF assms(1)] by (fastforce simp: filter_empty_conv)
  then show ?thesis by (simp add: et_row_buildEdgeTable)
qed

lemma et_row_nonempty_less: "et_row et r \<noteq> [] \<Longrightarrow> r < length et"
  by (auto simp: et_row_def split: if_splits)

lemma skip_empty_char:
  assumes "et_row et r \<noteq> []" and "\<forall>r' < r. et_row et r' = []"
  shows "skip_empty et 0 = r"
proof -
  have r: "r < length et" using assms(1) by (rule et_row_nonempty_less)
  have "\<not> r < skip_empty et 0"
    using skip_empty_rows_empty[of 0 r et] assms(1) by auto
  moreover have "\<not> skip_empty et 0 < r"
  proof
    assume l: "skip_empty et 0 < r"
    with r have "skip_empty et 0 < length et" by simp
    from skip_empty_stop[OF this] this have "et_row et (skip_empty et 0) \<noteq> []"
      by (simp add: et_row_def)
    with assms(2) l show False by simp
  qed
  ultimately show ?thesis by simp
qed

lemma skip_empty_all_empty:
  assumes "\<forall>r. et_row et r = []"
  shows "length et \<le> skip_empty et 0"
proof (rule ccontr)
  assume "\<not> length et \<le> skip_empty et 0"
  then have l: "skip_empty et 0 < length et" by simp
  from skip_empty_stop[OF this] l have "et_row et (skip_empty et 0) \<noteq> []"
    by (simp add: et_row_def)
  with assms show False by simp
qed

lemma skip_empty_translate:
  assumes "\<forall>p \<in> set vs. 0 \<le> coordinateY p \<and> coordinateY p < mh \<and>
            0 \<le> coordinateY p + k \<and> coordinateY p + k < mh"
    and "et = buildEdgeTable vs mh" and "et' = buildEdgeTable (translate_polygon k vs) mh"
  shows "(skip_empty et 0 < length et \<and> skip_empty et' 0 < length et'
            \<and> int (skip_empty et' 0) = int (skip_empty et 0) + k)
         \<or> (length et \<le> skip_empty et 0 \<and> length et' \<le> skip_empty et' 0)"
proof (cases "skip_empty et 0 < length et")
  case True
  let ?y0 = "skip_empty et 0"
  have ne: "et_row et ?y0 \<noteq> []" using skip_empty_stop[OF True] True by (simp add: et_row_def)
  have nn: "0 \<le> int ?y0 + k"
    using et_row_negative_shift[OF assms(1), of ?y0] ne by (force simp: assms(2))
  define r' where "r' = nat (int ?y0 + k)"
  have r': "int r' = int ?y0 + k" using nn by (simp add: r'_def)
  have 1: "et_row et' r' \<noteq> []"
    using et_row_translate[OF assms(1) r'] ne by (simp add: assms(2,3))
  have 2: "\<forall>r'' < r'. et_row et' r'' = []"
  proof (intro allI impI)
    fix r'' assume l: "r'' < r'"
    show "et_row et' r'' = []"
    proof (cases "int r'' < k")
      case True
      then show ?thesis using et_row_translate_below[OF assms(1)] by (simp add: assms(3))
    next
      case False
      define r where "r = nat (int r'' - k)"
      have r: "int r'' = int r + k" using False by (simp add: r_def)
      with l r' have "r < ?y0" by linarith
      then have "et_row et r = []" using skip_empty_rows_empty[of 0 r et] by simp
      with et_row_translate[OF assms(1) r] show ?thesis by (simp add: assms(2,3))
    qed
  qed
  have "skip_empty et' 0 = r'" using 1 2 by (rule skip_empty_char)
  with True r' et_row_nonempty_less[OF 1] show ?thesis by simp
next
  case False
  have e: "et_row et r = []" for r
  proof (cases "r < skip_empty et 0")
    case True
    then show ?thesis using skip_empty_rows_empty[of 0 r et] by simp
  next
    case f: False
    with False show ?thesis by (simp add: et_row_def)
  qed
  have "et_row et' r' = []" for r'
  proof (cases "int r' < k")
    case True
    then show ?thesis using et_row_translate_below[OF assms(1)] by (simp add: assms(3))
  next
    case f: False
    define r where "r = nat (int r' - k)"
    have "int r' = int r + k" using f by (simp add: r_def)
    from et_row_translate[OF assms(1) this] e[of r] show ?thesis by (simp add: assms(2,3))
  qed
  then have "length et' \<le> skip_empty et' 0" by (intro skip_empty_all_empty) simp
  with False show ?thesis by simp
qed


lemma translate_edge_fields [simp]:
  "currentX (translate_edge k e) = currentX e"
  "inverseSlope (translate_edge k e) = inverseSlope e"
  "maximumY (translate_edge k e) = maximumY e + k"
  by (simp_all add: translate_edge_def)

lemma insort_key_map_same_key:
  "(\<And>x. f (g x) = f x) \<Longrightarrow> insort_key f (g x) (map g ys) = map g (insort_key f x ys)"
  by (induction ys) simp_all

lemma sort_key_map_same_key:
  "(\<And>x. f (g x) = f x) \<Longrightarrow> sort_key f (map g xs) = map g (sort_key f xs)"
  by (induction xs) (simp_all add: insort_key_map_same_key)

lemma advance_prune_translate:
  "int y' = int y + k \<Longrightarrow>
     advance_prune y' (map (translate_edge k) aet) = map (translate_edge k) (advance_prune y aet)"
  by (induction aet) (simp_all add: advance_prune_def translate_edge_def)

lemma aet_at_translate:
  assumes "int y' = int y + k"
    and "\<And>j. et_row et' (y' + j) = map (translate_edge k) (et_row et (y + j))"
  shows "aet_at et' y' (map (translate_edge k) aet) j = map (translate_edge k) (aet_at et y aet j)"
proof (induction j)
  case 0
  from assms(2)[of 0] show ?case
    by (simp add: load_sorted_eq sort_key_map_same_key[symmetric])
next
  case (Suc j)
  have "int (y' + Suc j) = int (y + Suc j) + k" using assms(1) by simp
  from advance_prune_translate[OF this] Suc assms(2)[of "Suc j"] show ?case
    by (simp add: aet_at.simps(2) load_sorted_eq sort_key_map_same_key[symmetric])
qed

lemma span_pairs_translate:
  assumes "int y' = int y + k" and "int y < mh \<longleftrightarrow> int y' < mh"
  shows "span_pairs mh mw y' (map (translate_edge k) aet)
     = map (translate_primitive k) (span_pairs mh mw y aet)"
proof (induction aet rule: induct_list012)
  case (3 a b rest)
  then show ?case
    using assms unfolding list.map span_pairs_Cons2
    by (simp add: clamped_start_def clamped_end_def Span_def)
qed simp_all

lemma emit_spans_Nil [simp]: "emit_spans mh mw y [] = []"
  by (simp add: emit_spans_def)

lemma emit_spans_translate:
  assumes "int y' = int y + k" and "int y < mh \<longleftrightarrow> int y' < mh"
  shows "emit_spans mh mw y' (map (translate_edge k) aet)
     = map (translate_primitive k) (emit_spans mh mw y aet)"
  using assms span_pairs_translate[OF assms, of mw aet]
  by (simp add: emit_spans_def Let_def)

lemma concat_map_extend:
  "(\<forall>j \<ge> n. f j = []) \<Longrightarrow> n \<le> N \<Longrightarrow> concat (map f [0..<N]) = concat (map f [0..<n])"
proof (induction N)
  case 0
  then show ?case by simp
next
  case (Suc N)
  show ?case
  proof (cases "n = Suc N")
    case True
    then show ?thesis by simp
  next
    case False
    with Suc.prems have "n \<le> N" "f N = []" by auto
    with Suc show ?thesis by simp
  qed
qed

lemma active_row_below_maxHeight:
  assumes "\<forall>p \<in> set vs. 0 \<le> coordinateY p \<and> coordinateY p < mh \<and>
            0 \<le> coordinateY p + k \<and> coordinateY p + k < mh"
    and "aet_at (buildEdgeTable vs mh) y [] j \<noteq> []"
  shows "int (y + j) < mh \<and> int (y + j) + k < mh"
proof -
  from assms(2) obtain e where "e \<in> set (aet_at (buildEdgeTable vs mh) y [] j)"
    by (cases "aet_at (buildEdgeTable vs mh) y [] j") auto
  from aet_at_member[OF this] obtain r e0
    where r: "r \<le> y + j" "e0 \<in> set (et_row (buildEdgeTable vs mh) r)"
      "r < y + j \<longrightarrow> int (y + j) < maximumY e0"
    by blast
  from r(2) have "(r, e0) \<in> set (edge_entries vs mh)"
    by (force simp: et_row_buildEdgeTable)
  from edge_entries_bounds[OF assms(1) this]
  have b: "maximumY e0 < mh" "maximumY e0 + k < mh" by simp_all
  from et_row_buildEdgeTable_rows[OF r(2)] have "int r \<le> maximumY e0" by simp
  with r(1,3) have "int (y + j) \<le> maximumY e0" by (cases "r < y + j") auto
  with b show ?thesis by linarith
qed

text \<open>
  C6. For every polygon and every integer \<open>k\<close>, when every vertex and its translate
  lie on rows in \<open>[0, maxHeight)\<close>, so that neither polygon is clipped, the fill of the
  polygon translated vertically by \<open>k\<close> rows draws exactly what the fill of the
  original draws, each primitive moved by \<open>k\<close> rows, in the same order.
\<close>

theorem fill_vertical_translation:
  assumes "\<forall>p \<in> set vs. 0 \<le> coordinateY p \<and> coordinateY p < maxHeight \<and>
            0 \<le> coordinateY p + k \<and> coordinateY p + k < maxHeight"
  shows "fillPolygon (translate_polygon k vs) maxHeight maxWidth
     = map_option (map (translate_primitive k)) (fillPolygon vs maxHeight maxWidth)"
proof -
  define et where "et = buildEdgeTable vs maxHeight"
  define et' where "et' = buildEdgeTable (translate_polygon k vs) maxHeight"
  define y0 where "y0 = skip_empty et 0"
  define y0' where "y0' = skip_empty et' 0"
  let ?emit = "emit_spans maxHeight maxWidth"
  let ?T = "translate_edge k"
  show ?thesis
  proof (cases "length vs < 3")
    case True
    then show ?thesis by (simp add: fillPolygon_def scanline_run_def)
  next
    case False
    then have l: "3 \<le> length vs" "3 \<le> length (translate_polygon k vs)" by simp_all
    from skip_empty_translate[OF assms et_def et'_def]
    consider (run) "y0 < length et" "y0' < length et'" "int y0' = int y0 + k"
      | (none) "length et \<le> y0" "length et' \<le> y0'"
      by (auto simp: y0_def y0'_def)
    then show ?thesis
    proof cases
      case none
      then show ?thesis
        by (simp add: fillPolygon_def scanline_run_early et_def et'_def y0_def y0'_def)
    next
      case run
      from scanline_run_closed[OF l(1) run(1) et_def y0_def, of ?emit]
      obtain n where n: "\<forall>j\<ge>n. aet_at et y0 [] j = []"
        "fillPolygon vs maxHeight maxWidth
           = Some (concat (map (\<lambda>j. ?emit (y0 + j) (aet_at et y0 [] j)) [0..<n]))"
        by (auto simp: fillPolygon_def)
      from scanline_run_closed[OF l(2) run(2) et'_def y0'_def, of ?emit]
      obtain n' where n': "\<forall>j\<ge>n'. aet_at et' y0' [] j = []"
        "fillPolygon (translate_polygon k vs) maxHeight maxWidth
           = Some (concat (map (\<lambda>j. ?emit (y0' + j) (aet_at et' y0' [] j)) [0..<n']))"
        by (auto simp: fillPolygon_def)
      have rows: "et_row et' (y0' + j) = map ?T (et_row et (y0 + j))" for j
        unfolding et_def et'_def using run(3) by (intro et_row_translate[OF assms]) simp
      have aet: "aet_at et' y0' [] j = map ?T (aet_at et y0 [] j)" for j
        using aet_at_translate[OF run(3) rows, of "[]" j] by simp
      have emit: "?emit (y0' + j) (aet_at et' y0' [] j)
          = map (translate_primitive k) (?emit (y0 + j) (aet_at et y0 [] j))" for j
      proof (cases "aet_at et y0 [] j = []")
        case True
        then show ?thesis by (simp add: aet)
      next
        case False
        from active_row_below_maxHeight[OF assms False[unfolded et_def]] run(3)
        have "int (y0 + j) < maxHeight" "int (y0' + j) < maxHeight" by simp_all
        moreover have "int (y0' + j) = int (y0 + j) + k" using run(3) by simp
        ultimately show ?thesis unfolding aet by (intro emit_spans_translate) simp_all
      qed
      define N where "N = max n n'"
      let ?E = "\<lambda>j. ?emit (y0 + j) (aet_at et y0 [] j)"
      let ?E' = "\<lambda>j. ?emit (y0' + j) (aet_at et' y0' [] j)"
      have A: "concat (map ?E [0..<N]) = concat (map ?E [0..<n])"
        using n(1) by (intro concat_map_extend) (auto simp: N_def)
      have B: "concat (map ?E' [0..<N]) = concat (map ?E' [0..<n'])"
        using n'(1) by (intro concat_map_extend) (auto simp: N_def)
      have "concat (map ?E' [0..<n']) = concat (map ?E' [0..<N])"
        using B by simp
      also have "\<dots> = concat (map (\<lambda>j. map (translate_primitive k) (?E j)) [0..<N])"
        by (simp only: emit)
      also have "\<dots> = map (translate_primitive k) (concat (map ?E [0..<N]))"
        by (simp add: map_concat comp_def)
      also have "\<dots> = map (translate_primitive k) (concat (map ?E [0..<n]))"
        by (simp only: A)
      finally show ?thesis
        unfolding n(2) n'(2) by simp
    qed
  qed
qed


lemma small_triangle_entries_5:
  "edge_entries small_triangle 5 =
     [(0, \<lparr>maximumY = 0, currentX = 0, inverseSlope = 0, minimumY = 0\<rparr>),
      (1, \<lparr>maximumY = 2, currentX = 3 / 2, inverseSlope = - 1 / 2, minimumY = 1\<rparr>),
      (1, \<lparr>maximumY = 2, currentX = 1 / 2, inverseSlope = 1 / 2, minimumY = 1\<rparr>)]"
  by (simp add: small_triangle_def eval_entries)

lemma small_triangle_start_5: "skip_empty (buildEdgeTable small_triangle 5) 0 = 0"
  by (subst skip_empty_unfold) (simp add: et_row_buildEdgeTable small_triangle_entries_5)

lemma small_triangle_fill_5: "fillPolygon small_triangle 5 3 = Some [GlLine 1 1 3 1]"
  by (simp add: fillPolygon_def small_triangle_start_5 small_triangle_length eval_loop
      small_triangle_entries_5 eval_emit)

theorem fill_vertical_translation_witness:
  "fillPolygon small_triangle 5 3 = Some [GlLine 1 1 3 1] \<and>
   fillPolygon (translate_polygon 2 small_triangle) 5 3 = Some [GlLine 1 3 3 3]"
proof -
  have h: "\<forall>p \<in> set small_triangle. 0 \<le> coordinateY p \<and> coordinateY p < 5 \<and>
            0 \<le> coordinateY p + 2 \<and> coordinateY p + 2 < 5"
    by (simp add: small_triangle_def)
  from fill_vertical_translation[OF h, of 3] show ?thesis
    by (simp add: small_triangle_fill_5)
qed

end
